theory Spec2Isabelle
  imports Complex_Main "HOL-Library.Sublist"
begin

section \<open>Strings\<close>

text \<open>
  Utterances, replies and documents are \<^typ>\<open>string\<close>s. The embedding reads a
  JavaScript string as its sequence of ASCII characters: \<open>toLowerCase\<close> lowers the
  letters A to Z, and white space (the class \<open>\s\<close>, also what \<open>trim\<close> removes)
  is tab, line feed, vertical tab, form feed, carriage return and space.
\<close>

definition code_of :: "char \<Rightarrow> nat" where
  "code_of c = of_char c"

definition is_upper :: "char \<Rightarrow> bool" where
  "is_upper c = (65 \<le> code_of c \<and> code_of c \<le> 90)"

definition is_lower :: "char \<Rightarrow> bool" where
  "is_lower c = (97 \<le> code_of c \<and> code_of c \<le> 122)"

definition is_alpha :: "char \<Rightarrow> bool" where
  "is_alpha c = (is_upper c \<or> is_lower c)"

definition is_digit :: "char \<Rightarrow> bool" where
  "is_digit c = (48 \<le> code_of c \<and> code_of c \<le> 57)"

definition is_space :: "char \<Rightarrow> bool" where
  "is_space c = (code_of c = 32 \<or> (9 \<le> code_of c \<and> code_of c \<le> 13))"

definition lower_char :: "char \<Rightarrow> char" where
  "lower_char c = (if is_upper c then char_of (code_of c + 32) else c)"

definition toLowerCase :: "string \<Rightarrow> string" where
  "toLowerCase s = map lower_char s"

text \<open>\<open>s.includes(sub)\<close>: \<open>sub\<close> occurs in \<open>s\<close> as a contiguous run.\<close>

fun str_includes :: "string \<Rightarrow> string \<Rightarrow> bool" where
  "str_includes [] sub = (sub = [])"
| "str_includes (c # cs) sub = (prefix sub (c # cs) \<or> str_includes cs sub)"

definition trim :: "string \<Rightarrow> string" where
  "trim s = rev (dropWhile is_space (rev (dropWhile is_space s)))"

text \<open>\<open>parts.join(sep)\<close>\<close>

fun join :: "string \<Rightarrow> string list \<Rightarrow> string" where
  "join sep [] = []"
| "join sep [x] = x"
| "join sep (x # y # ys) = x @ sep @ join sep (y # ys)"

section \<open>Regular expressions\<close>

text \<open>
  The regular expressions of the sources use literals (matched without regard to case
  under the flag \<open>i\<close>), greedy bounded repetition of a character class, sequence,
  alternation, the greedy option \<open>?\<close> and named groups. \<open>rx_match\<close> lists the ways
  a pattern matches at the start of the input, in the order a backtracking matcher tries
  them: each way is the rest of the input after the match, with the groups captured.
\<close>

datatype rx =
    Lit string
  | Rep "char \<Rightarrow> bool" nat "nat option"
  | Seq rx rx
  | Alt rx rx
  | Opt rx
  | Grp string rx

type_synonym captures = "(string \<times> string) list"

fun rx_match :: "rx \<Rightarrow> string \<times> captures \<Rightarrow> (string \<times> captures) list" where
  "rx_match (Lit l) (s, caps) =
     (if toLowerCase (take (length l) s) = toLowerCase l \<and> length l \<le> length s
      then [(drop (length l) s, caps)] else [])"
| "rx_match (Rep p lo hi) (s, caps) =
     (let k = length (takeWhile p s);
          m = (case hi of None \<Rightarrow> k | Some h \<Rightarrow> min h k)
      in map (\<lambda>n. (drop n s, caps)) (rev [lo ..< Suc m]))"
| "rx_match (Seq a b) st = concat (map (rx_match b) (rx_match a st))"
| "rx_match (Alt a b) st = rx_match a st @ rx_match b st"
| "rx_match (Opt a) st = rx_match a st @ [st]"
| "rx_match (Grp nm a) (s, caps) =
     map (\<lambda>(s', caps'). (s', (nm, take (length s - length s') s) # caps'))
       (rx_match a (s, caps))"

text \<open>
  \<open>s.match(rx)\<close> for a pattern without the flag \<open>g\<close>: the first way of matching
  at the leftmost position that has one. The result is the matched text and the groups.
\<close>

fun js_match :: "rx \<Rightarrow> string \<Rightarrow> (string \<times> captures) option" where
  "js_match r [] =
     (case rx_match r ([], []) of [] \<Rightarrow> None | (s', caps) # _ \<Rightarrow> Some ([], caps))"
| "js_match r (c # cs) =
     (case rx_match r (c # cs, []) of
        [] \<Rightarrow> js_match r cs
      | (s', caps) # _ \<Rightarrow> Some (take (length (c # cs) - length s') (c # cs), caps))"

definition group :: "captures \<Rightarrow> string \<Rightarrow> string option" where
  "group caps nm = map_of caps nm"

text \<open>
  \<open>s.split(rx)\<close>: scan from the left; a match at the current position that is not
  empty closes the current piece and the scan goes on after the match; an empty match
  closes the current piece unless that piece is empty, and the scan moves on by one
  character.
\<close>

function split_loop :: "rx \<Rightarrow> string \<Rightarrow> string \<Rightarrow> string list" where
  "split_loop r cur [] = [cur]"
| "split_loop r cur (c # cs) =
     (case rx_match r (c # cs, []) of
        [] \<Rightarrow> split_loop r (cur @ [c]) cs
      | (s', caps) # _ \<Rightarrow>
          if length s' < length (c # cs) then cur # split_loop r [] s'
          else if cur = [] then split_loop r [c] cs
          else cur # split_loop r [c] cs)"
  by pat_completeness auto
termination
  by (relation "measure (\<lambda>(r, cur, s). length s)") auto

definition js_split :: "rx \<Rightarrow> string \<Rightarrow> string list" where
  "js_split r s =
     (if s = [] then (case rx_match r ([], []) of [] \<Rightarrow> [[]] | _ \<Rightarrow> [])
      else split_loop r [] s)"

section \<open>lib/gradeParser.ts\<close>

text \<open>
  A grade is a JavaScript number. The numbers of this development are read from decimal
  numerals or come from the extractor's JSON; they are kept as exact rationals.
\<close>

record ParsedGradeEntry =
  studentName :: string
  subject :: "string option"
  grade :: "rat option"

record ParsedGradesResult =
  className :: "string option"
  entries :: "ParsedGradeEntry list"

definition digits_value :: "string \<Rightarrow> nat" where
  "digits_value ds = foldl (\<lambda>acc d. 10 * acc + (code_of d - 48)) 0 ds"

text \<open>\<open>Number(str)\<close> on a numeral \<open>ddd\<close> or \<open>ddd.ddd\<close>, the shape the group
  \<open>grade\<close> has.\<close>

definition Number :: "string \<Rightarrow> rat" where
  "Number str =
     (let ip = takeWhile is_digit str;
          fp = drop (Suc (length ip)) str
      in of_nat (digits_value ip) + of_nat (digits_value fp) / of_nat (10 ^ length fp))"

definition name_class :: "char \<Rightarrow> bool" where
  "name_class c = (is_alpha c \<or> c = CHR 0x27 \<or> c = CHR ''-'' \<or> c = CHR '' '')"

definition subject_class :: "char \<Rightarrow> bool" where
  "subject_class c = (is_alpha c \<or> c = CHR '' '' \<or> c = CHR ''&'')"

definition class_name_class :: "char \<Rightarrow> bool" where
  "class_name_class c = (is_alpha c \<or> is_digit c \<or> c = CHR ''-'')"

definition sep_class :: "char \<Rightarrow> bool" where
  "sep_class c = (c = CHR '';'' \<or> c = CHR ''.'' \<or> c = CHR ''|'' \<or> c = CHR 0x0A)"

definition rx_name :: rx where
  "rx_name = Grp ''name'' (Rep name_class 2 (Some 50))"

definition rx_grade :: rx where
  "rx_grade =
     Grp ''grade'' (Seq (Rep is_digit 1 (Some 3))
                        (Opt (Seq (Lit ''.'') (Rep is_digit 1 None))))"

definition rx_subject :: rx where
  "rx_subject = Grp ''subject'' (Rep subject_class 1 None)"

definition rx_spaces :: "nat \<Rightarrow> rx" where
  "rx_spaces lo = Rep is_space lo None"

text \<open>\<open>/class\s+([A-Za-z0-9\-]+)/i\<close>; the group is numbered 1 in the source.\<close>

definition rx_class :: rx where
  "rx_class = Seq (Lit ''class'') (Seq (rx_spaces 1) (Grp ''1'' (Rep class_name_class 1 None)))"

text \<open>\<open>/[;\.|\n]| and |, and |,\s+/i\<close>\<close>

definition rx_separator :: rx where
  "rx_separator =
     Alt (Rep sep_class 1 (Some 1))
      (Alt (Lit '' and '')
       (Alt (Lit '', and '')
            (Seq (Lit '','') (rx_spaces 1))))"

text \<open>The three patterns of \<open>gradeRegexes\<close>, in the order of the array.\<close>

definition rx_got :: rx where
  "rx_got =
     Seq rx_name (Seq (rx_spaces 1)
      (Seq (Opt (Alt (Lit ''got'') (Alt (Lit ''has'') (Alt (Lit ''scored'')
              (Alt (Seq (Lit ''scored'') (Seq (rx_spaces 1) (Lit ''an''))) (Lit ''received''))))))
       (Seq (rx_spaces 0) (Seq rx_grade (Seq (rx_spaces 0)
        (Seq (Opt (Alt (Lit ''in'') (Lit ''for'')))
         (Seq (rx_spaces 0) (Opt rx_subject))))))))"

definition rx_colon :: rx where
  "rx_colon =
     Seq rx_name (Seq (Rep (\<lambda>c. c = CHR '':'' \<or> c = CHR ''-'') 1 (Some 1))
      (Seq (rx_spaces 0) (Seq rx_subject (Seq (rx_spaces 0) rx_grade))))"

definition rx_subject_first :: rx where
  "rx_subject_first =
     Seq rx_subject (Seq (rx_spaces 1) (Seq rx_name (Seq (rx_spaces 0) rx_grade)))"

definition gradeRegexes :: "rx list" where
  "gradeRegexes = [rx_got, rx_colon, rx_subject_first]"

text \<open>\<open>/(?<name>[A-Za-z'\- ]{2,50})\s+(?<grade>\d{1,3}(?:\.\d+)?)/\<close>\<close>

definition rx_fallback :: rx where
  "rx_fallback = Seq rx_name (Seq (rx_spaces 1) rx_grade)"

definition or_empty :: "string option \<Rightarrow> string" where
  "or_empty v = (case v of None \<Rightarrow> [] | Some s \<Rightarrow> s)"

text \<open>The inner loop over \<open>gradeRegexes\<close>: the first pattern that matches with a
  student name that is not empty gives the entry.\<close>

fun try_regexes :: "rx list \<Rightarrow> string \<Rightarrow> ParsedGradeEntry option" where
  "try_regexes [] part = None"
| "try_regexes (rx # rxs) part =
     (case js_match rx part of
        None \<Rightarrow> try_regexes rxs part
      | Some (m, caps) \<Rightarrow>
          (let studentName = trim (or_empty (group caps ''name''));
               subj = trim (or_empty (group caps ''subject''));
               gradeStr = trim (or_empty (group caps ''grade''))
           in if studentName \<noteq> []
              then Some \<lparr>studentName = studentName,
                         subject = (if subj = [] then None else Some subj),
                         grade = (if gradeStr = [] then None else Some (Number gradeStr))\<rparr>
              else try_regexes rxs part))"

definition parse_part :: "string \<Rightarrow> ParsedGradeEntry list" where
  "parse_part part =
     (case try_regexes gradeRegexes part of
        Some e \<Rightarrow> [e]
      | None \<Rightarrow>
          (case js_match rx_fallback part of
             None \<Rightarrow> []
           | Some (m, caps) \<Rightarrow>
               [\<lparr>studentName = trim (or_empty (group caps ''name'')),
                 subject = None,
                 grade = Some (Number (or_empty (group caps ''grade'')))\<rparr>]))"

definition parseGrades :: "string \<Rightarrow> ParsedGradesResult" where
  "parseGrades text =
     (if text = [] then \<lparr>className = None, entries = []\<rparr>
      else
        let classMatch = js_match rx_class text;
            cn = (case classMatch of None \<Rightarrow> None | Some (m, caps) \<Rightarrow> group caps ''1'');
            parts = filter (\<lambda>p. p \<noteq> []) (map trim (js_split rx_separator text))
        in \<lparr>className = cn, entries = concat (map parse_part parts)\<rparr>)"

section \<open>Errors and effects\<close>

text \<open>
  A thrown JavaScript error is a value; \<open>message\<close> reads its message. A computation of
  the handlers takes the state (the stored rows and the schedule of storage failures) and
  returns the new state with either the error thrown (\<open>Inl\<close>) or the value returned
  (\<open>Inr\<close>). What was written before a throw stays written.
\<close>

datatype jserror = Error string

fun message :: "jserror \<Rightarrow> string" where
  "message (Error m) = m"

record User =
  u_phone :: string
  u_role :: string
  u_status :: string

record Call =
  c_userId :: nat
  c_twilioCallSid :: string
  c_status :: string
  c_endedAt :: "nat option"
  c_assignedCounselorId :: "nat option"
  c_conversation :: "nat option"

record Conversation =
  cv_userId :: nat

record Message =
  m_conversationId :: nat
  m_role :: string
  m_content :: string

record Escalation =
  e_callId :: nat
  e_counselorId :: nat
  e_notes :: string

record Classroom =
  cl_name :: string
  cl_teacherId :: nat

record Student =
  s_name :: string
  s_classroomId :: "nat option"

record Grade =
  g_studentId :: nat
  g_subject :: string
  g_value :: rat

text \<open>
  The tables of the store. Rows are kept in the order of their creation and are never
  deleted by these handlers; the id of a row is its position in its table, so ids are
  unique and a new row gets a fresh one.
\<close>

record db =
  users :: "User list"
  calls :: "Call list"
  conversations :: "Conversation list"
  messages :: "Message list"
  escalations :: "Escalation list"
  classrooms :: "Classroom list"
  students :: "Student list"
  grades :: "Grade list"

record state =
  store :: db
  faults :: "bool list"

type_synonym 'a io = "state \<Rightarrow> (jserror + 'a) \<times> state"

definition ret :: "'a \<Rightarrow> 'a io" where
  "ret x = (\<lambda>s. (Inr x, s))"

definition throw :: "jserror \<Rightarrow> 'a io" where
  "throw e = (\<lambda>s. (Inl e, s))"

definition bnd :: "'a io \<Rightarrow> ('a \<Rightarrow> 'b io) \<Rightarrow> 'b io" where
  "bnd m f = (\<lambda>s. case m s of (Inl e, s') \<Rightarrow> (Inl e, s') | (Inr x, s') \<Rightarrow> f x s')"

definition try_catch :: "'a io \<Rightarrow> (jserror \<Rightarrow> 'a io) \<Rightarrow> 'a io" where
  "try_catch m h = (\<lambda>s. case m s of (Inl e, s') \<Rightarrow> h e s' | (Inr x, s') \<Rightarrow> (Inr x, s'))"

section \<open>The storage layer\<close>

text \<open>
  Every call of the storage client consumes one entry of the schedule of failures: on
  \<open>True\<close> the call throws and writes nothing; otherwise (also when the schedule is
  used up) the operation runs on the tables. An operation can throw by itself: an update
  of a row that does not exist, a second call row with the same gateway identifier.
\<close>

definition prisma :: "(db \<Rightarrow> jserror + 'a \<times> db) \<Rightarrow> 'a io" where
  "prisma op = (\<lambda>s.
     case faults s of
       True # fs \<Rightarrow> (Inl (Error ''storage failure''), s\<lparr>faults := fs\<rparr>)
     | _ \<Rightarrow>
       (case op (store s) of
          Inl e \<Rightarrow> (Inl e, s\<lparr>faults := tl (faults s)\<rparr>)
        | Inr (x, d) \<Rightarrow> (Inr x, \<lparr>store = d, faults = tl (faults s)\<rparr>)))"

fun find_from :: "('a \<Rightarrow> bool) \<Rightarrow> 'a list \<Rightarrow> nat \<Rightarrow> (nat \<times> 'a) option" where
  "find_from P [] i = None"
| "find_from P (x # xs) i = (if P x then Some (i, x) else find_from P xs (Suc i))"

text \<open>The first row that satisfies the filter, with its id.\<close>

definition findFirst :: "('a \<Rightarrow> bool) \<Rightarrow> 'a list \<Rightarrow> (nat \<times> 'a) option" where
  "findFirst P xs = find_from P xs 0"

definition row_at :: "'a list \<Rightarrow> nat \<Rightarrow> (nat \<times> 'a) option" where
  "row_at xs i = (if i < length xs then Some (i, xs ! i) else None)"

definition call_findUnique_sid :: "string \<Rightarrow> (nat \<times> Call) option io" where
  "call_findUnique_sid sid =
     prisma (\<lambda>d. Inr (findFirst (\<lambda>c. c_twilioCallSid c = sid) (calls d), d))"

definition call_findUnique_id :: "nat \<Rightarrow> (nat \<times> Call) option io" where
  "call_findUnique_id i = prisma (\<lambda>d. Inr (row_at (calls d) i, d))"

definition call_create :: "Call \<Rightarrow> (nat \<times> Call) io" where
  "call_create c =
     prisma (\<lambda>d.
       if \<exists>c' \<in> set (calls d). c_twilioCallSid c' = c_twilioCallSid c
       then Inl (Error ''Unique constraint failed'')
       else Inr ((length (calls d), c), d\<lparr>calls := calls d @ [c]\<rparr>))"

definition call_update :: "nat \<Rightarrow> (Call \<Rightarrow> Call) \<Rightarrow> (nat \<times> Call) io" where
  "call_update i f =
     prisma (\<lambda>d.
       if i < length (calls d)
       then Inr ((i, f (calls d ! i)), d\<lparr>calls := (calls d)[i := f (calls d ! i)]\<rparr>)
       else Inl (Error ''Record to update not found''))"

text \<open>\<open>user.upsert\<close> by phone with an empty update: the row found, or a new
  one. The status of a new row is the default of the schema, a parameter here.\<close>

definition user_upsert :: "string \<Rightarrow> string \<Rightarrow> (nat \<times> User) io" where
  "user_upsert dflt phone =
     prisma (\<lambda>d.
       case findFirst (\<lambda>u. u_phone u = phone) (users d) of
         Some r \<Rightarrow> Inr (r, d)
       | None \<Rightarrow>
           (let u = \<lparr>u_phone = phone, u_role = ''user'', u_status = dflt\<rparr>
            in Inr ((length (users d), u), d\<lparr>users := users d @ [u]\<rparr>)))"

definition user_findUnique :: "nat \<Rightarrow> (nat \<times> User) option io" where
  "user_findUnique i = prisma (\<lambda>d. Inr (row_at (users d) i, d))"

definition user_findFirst :: "(User \<Rightarrow> bool) \<Rightarrow> (nat \<times> User) option io" where
  "user_findFirst P = prisma (\<lambda>d. Inr (findFirst P (users d), d))"

definition user_update :: "nat \<Rightarrow> (User \<Rightarrow> User) \<Rightarrow> (nat \<times> User) io" where
  "user_update i f =
     prisma (\<lambda>d.
       if i < length (users d)
       then Inr ((i, f (users d ! i)), d\<lparr>users := (users d)[i := f (users d ! i)]\<rparr>)
       else Inl (Error ''Record to update not found''))"

definition conversation_create :: "nat \<Rightarrow> nat io" where
  "conversation_create uid =
     prisma (\<lambda>d. Inr (length (conversations d),
                      d\<lparr>conversations := conversations d @ [\<lparr>cv_userId = uid\<rparr>]\<rparr>))"

definition message_findFirst :: "nat \<Rightarrow> string \<Rightarrow> string \<Rightarrow> (nat \<times> Message) option io" where
  "message_findFirst cv r txt =
     prisma (\<lambda>d. Inr (findFirst (\<lambda>m. m_conversationId m = cv \<and> m_role m = r \<and> m_content m = txt)
                         (messages d), d))"

definition message_create :: "nat \<Rightarrow> string \<Rightarrow> string \<Rightarrow> unit io" where
  "message_create cv r txt =
     prisma (\<lambda>d. Inr ((), d\<lparr>messages := messages d @
                        [\<lparr>m_conversationId = cv, m_role = r, m_content = txt\<rparr>]\<rparr>))"

definition escalation_create :: "Escalation \<Rightarrow> unit io" where
  "escalation_create e = prisma (\<lambda>d. Inr ((), d\<lparr>escalations := escalations d @ [e]\<rparr>))"

definition classroom_findFirst :: "string \<Rightarrow> nat \<Rightarrow> (nat \<times> Classroom) option io" where
  "classroom_findFirst nm tid =
     prisma (\<lambda>d. Inr (findFirst (\<lambda>c. cl_name c = nm \<and> cl_teacherId c = tid) (classrooms d), d))"

definition classroom_create :: "string \<Rightarrow> nat \<Rightarrow> nat io" where
  "classroom_create nm tid =
     prisma (\<lambda>d. Inr (length (classrooms d),
                      d\<lparr>classrooms := classrooms d @ [\<lparr>cl_name = nm, cl_teacherId = tid\<rparr>]\<rparr>))"

text \<open>A filter field that is \<open>undefined\<close> does not filter: without a classroom the
  student is looked up by name alone.\<close>

definition student_findFirst :: "string \<Rightarrow> nat option \<Rightarrow> (nat \<times> Student) option io" where
  "student_findFirst nm cls =
     prisma (\<lambda>d. Inr (findFirst (\<lambda>s. s_name s = nm \<and>
                           (case cls of None \<Rightarrow> True | Some k \<Rightarrow> s_classroomId s = Some k))
                         (students d), d))"

definition student_create :: "string \<Rightarrow> nat option \<Rightarrow> nat io" where
  "student_create nm cls =
     prisma (\<lambda>d. Inr (length (students d),
                      d\<lparr>students := students d @ [\<lparr>s_name = nm, s_classroomId = cls\<rparr>]\<rparr>))"

definition grade_create :: "Grade \<Rightarrow> unit io" where
  "grade_create g = prisma (\<lambda>d. Inr ((), d\<lparr>grades := grades d @ [g]\<rparr>))"

section \<open>External services\<close>

text \<open>
  Values of JSON: what the extraction service returns and what \<open>JSON.parse\<close> gives.
  An object is the list of its properties.
\<close>

datatype json =
    JNull
  | JBool bool
  | JNum rat
  | JStr string
  | JArr "json list"
  | JObj "(string \<times> json) list"

text \<open>
  What a handler does not compute itself is a parameter of the run:
  \<^item> \<open>cohere_chat message chatHistory preamble\<close> is how the race of the completion
    call against the timer of 10 seconds settles: the text of the reply, or the error
    thrown (the timer rejects with the message \<open>AI response timeout\<close>);
  \<^item> \<open>openai_chat system user\<close> is the same for the extraction call: the completion
    object, or the error;
  \<^item> \<open>JSON_parse\<close> is \<open>JSON.parse\<close> (\<open>None\<close> when it throws),
    \<open>Number_of\<close> is \<open>Number\<close> on any string (\<open>None\<close> for NaN) and
    \<open>String_of\<close> prints a number;
  \<^item> \<open>now\<close> is the clock, \<open>default_status\<close> the status the schema gives a new
    user, and \<open>storage_faults\<close> says which calls of the storage client fail, in order.
\<close>

record env =
  cohere_chat :: "string \<Rightarrow> (string \<times> string) list \<Rightarrow> string \<Rightarrow> jserror + string"
  openai_chat :: "string \<Rightarrow> string \<Rightarrow> jserror + json"
  JSON_parse :: "string \<Rightarrow> json option"
  Number_of :: "string \<Rightarrow> rat option"
  String_of :: "rat \<Rightarrow> string"
  now :: nat
  default_status :: string
  storage_faults :: "bool list"

definition timeout_error :: jserror where
  "timeout_error = Error ''AI response timeout''"

section \<open>lib/gradeExtractorOpenAI.ts\<close>

record AIExtractResult = ParsedGradesResult +
  missing :: "string list option"
  assistantReply :: "string option"

text \<open>\<open>typeof v === 'object' && v !== null\<close>\<close>

fun is_object :: "json \<Rightarrow> bool" where
  "is_object (JObj kv) = True"
| "is_object (JArr xs) = True"
| "is_object _ = False"

text \<open>\<open>v[key]\<close> for a key that is the name of a property.\<close>

fun js_prop :: "json \<Rightarrow> string \<Rightarrow> json option" where
  "js_prop (JObj kv) k = map_of kv k"
| "js_prop _ k = None"

text \<open>\<open>String(v)\<close>\<close>

fun js_String :: "(rat \<Rightarrow> string) \<Rightarrow> json \<Rightarrow> string" where
  "js_String pr JNull = ''null''"
| "js_String pr (JBool b) = (if b then ''true'' else ''false'')"
| "js_String pr (JNum n) = pr n"
| "js_String pr (JStr s) = s"
| "js_String pr (JArr xs) =
     join '','' (map (\<lambda>x. if x = JNull then [] else js_String pr x) xs)"
| "js_String pr (JObj kv) = ''[object Object]''"

definition empty_result :: AIExtractResult where
  "empty_result =
     \<lparr>className = None, entries = [],
      missing = None,
      assistantReply = Some ''I could not parse any grades. Could you repeat them more clearly?''\<rparr>"

definition system_prompt :: string where
  \<open>system_prompt =
     ''You are an assistant that extracts structured grade data from free-form spoken teacher input. '' @
     ''Output a single JSON object only (no explanation) with these keys: '' @
     ''"className" (string or null), "entries" (array of {"studentName":string, "subject":string|null, "grade":number|null}), and "missing" (array of student names the teacher mentioned but did not provide grades for). '' @
     ''If you cannot determine something, use null for that value. Keep "assistantReply" short (a one-sentence, polite confirmation or clarification request).''\<close>

definition escape_quotes :: "string \<Rightarrow> string" where
  "escape_quotes s = concat (map (\<lambda>c. if c = CHR 0x22 then [CHR 0x5C, CHR 0x22] else [c]) s)"

definition user_prompt :: "string \<Rightarrow> string" where
  \<open>user_prompt txt =
     ''Extract grades from this teacher statement exactly (do not invent new students): "'' @
     escape_quotes txt @ ''"''\<close>

text \<open>The text of the first choice of the completion, when it is a string.\<close>

definition completion_content :: "json \<Rightarrow> string option" where
  "completion_content completion =
     (if is_object completion then
        (case js_prop completion ''choices'' of
           Some (JArr (first # rest)) \<Rightarrow>
             (if is_object first then
                (case js_prop first ''message'' of
                   Some msg \<Rightarrow>
                     (if is_object msg then
                        (case js_prop msg ''content'' of Some (JStr c) \<Rightarrow> Some c | _ \<Rightarrow> None)
                      else None)
                 | None \<Rightarrow> None)
              else None)
         | _ \<Rightarrow> None)
      else None)"

text \<open>\<open>/\{[\s\S]*\}/\<close>\<close>

definition rx_json :: rx where
  "rx_json = Seq (Lit ''{'') (Seq (Rep (\<lambda>c. True) 0 None) (Lit ''}''))"

text \<open>The text handed to \<open>JSON.parse\<close>: the match of the pattern, or all of the
  output when nothing matches.\<close>

definition json_text :: "string \<Rightarrow> string" where
  "json_text raw = (case js_match rx_json raw of Some (m, caps) \<Rightarrow> m | None \<Rightarrow> raw)"

definition single_to_double :: "string \<Rightarrow> string" where
  "single_to_double s = map (\<lambda>c. if c = CHR 0x27 then CHR 0x22 else c) s"

definition entry_of_json :: "env \<Rightarrow> json \<Rightarrow> ParsedGradeEntry" where
  "entry_of_json ev e =
     \<lparr>studentName = (case js_prop e ''studentName'' of Some (JStr s) \<Rightarrow> trim s | _ \<Rightarrow> []),
      subject = (case js_prop e ''subject'' of Some (JStr s) \<Rightarrow> Some s | _ \<Rightarrow> None),
      grade = (case js_prop e ''grade'' of
                 Some (JNum n) \<Rightarrow> Some n
               | Some (JStr g) \<Rightarrow> (if trim g \<noteq> [] then Number_of ev g else None)
               | _ \<Rightarrow> None)\<rparr>"

definition entries_of_json :: "env \<Rightarrow> json list \<Rightarrow> ParsedGradeEntry list" where
  "entries_of_json ev es =
     filter (\<lambda>entry. studentName entry \<noteq> [])
       (map (entry_of_json ev) (filter is_object es))"

definition default_reply :: string where
  "default_reply =
     ''I parsed the grades '' @
     [CHR 0xC3, CHR 0xA2, CHR 0xE2, CHR 0x82, CHR 0xAC, CHR 0xE2, CHR 0x80, CHR 0x9D] @
     '' do you want to add more?''"

text \<open>The result built from the parsed value (the end of the \<open>try\<close> block).\<close>

definition result_of_json :: "env \<Rightarrow> json \<Rightarrow> AIExtractResult" where
  "result_of_json ev parsedUnknown =
     (let parsedObj = (if is_object parsedUnknown then parsedUnknown else JObj []);
          reply = (case js_prop parsedObj ''assistantReply'' of Some (JStr s) \<Rightarrow> Some s | _ \<Rightarrow> None)
      in \<lparr>className = (case js_prop parsedObj ''className'' of Some (JStr s) \<Rightarrow> Some s | _ \<Rightarrow> None),
          entries = (case js_prop parsedObj ''entries'' of
                       Some (JArr es) \<Rightarrow> entries_of_json ev es | _ \<Rightarrow> []),
          missing = (case js_prop parsedObj ''missing'' of
                       Some (JArr ms) \<Rightarrow> Some (map (js_String (String_of ev)) ms) | _ \<Rightarrow> None),
          assistantReply = (if reply = None \<or> reply = Some [] then Some default_reply else reply)\<rparr>)"

text \<open>The \<open>try\<close> block of \<open>extractGradesWithOpenAI\<close>: \<open>Inl\<close> is what it
  throws.\<close>

definition extract_try :: "env \<Rightarrow> string \<Rightarrow> jserror + AIExtractResult" where
  "extract_try ev txt =
     (case openai_chat ev system_prompt (user_prompt txt) of
        Inl err \<Rightarrow> Inl err
      | Inr completion \<Rightarrow>
          (case completion_content completion of
             None \<Rightarrow> Inr empty_result
           | Some raw \<Rightarrow>
               if raw = [] then Inr empty_result
               else
                 (let jsonText = json_text raw
                  in case JSON_parse ev jsonText of
                       Some v \<Rightarrow> Inr (result_of_json ev v)
                     | None \<Rightarrow>
                         (case JSON_parse ev (single_to_double jsonText) of
                            Some v \<Rightarrow> Inr (result_of_json ev v)
                          | None \<Rightarrow>
                              Inr (empty_result\<lparr>assistantReply :=
                                Some ''I had trouble extracting structured grades. Could you rephrase?''\<rparr>)))))"

definition extractGradesWithOpenAI :: "env \<Rightarrow> string \<Rightarrow> jserror + AIExtractResult" where
  "extractGradesWithOpenAI ev txt =
     (if txt = [] \<or> trim txt = [] then Inr empty_result
      else
        (case extract_try ev txt of
           Inr r \<Rightarrow> Inr r
         | Inl err \<Rightarrow>
             Inr (empty_result\<lparr>assistantReply :=
               Some ''I am having trouble parsing that right now. Could you repeat?''\<rparr>)))"

section \<open>lib/cohere.ts\<close>

record AIResponse =
  response :: string
  needsEscalation :: bool
  escalationReason :: string

text \<open>\<open>call.findUnique\<close> by id, with the conversation of the call and its messages.\<close>

definition call_with_messages :: "nat \<Rightarrow> (Call \<times> (nat \<times> Message list) option) option io" where
  "call_with_messages i =
     prisma (\<lambda>d. Inr (case row_at (calls d) i of
                         None \<Rightarrow> None
                       | Some (j, c) \<Rightarrow>
                           Some (c, case c_conversation c of
                                      None \<Rightarrow> None
                                    | Some cv \<Rightarrow>
                                        Some (cv, filter (\<lambda>m. m_conversationId m = cv) (messages d))),
                       d))"

definition swahiliWords :: "string list" where
  "swahiliWords = [''habari'', ''asante'', ''sijambo'', ''karibu'', ''pole'', ''samahani'',
                   ''tafadhali'', ''kujiua'', ''kujidhuru'', ''msaada'']"

definition preamble_sw :: string where
  "preamble_sw = ''Wewe ni msaidizi wa afya ya akili mwenye huruma. Sikiliza kwa makini, toa msaada, na gundua ikiwa mtumiaji anahitaji msaada wa kitaalamu. Ikiwa wanataja kujiua au kujidhuru, pendekeza msaada wa haraka. Jibu kwa Kiswahili.''"

definition preamble_en :: string where
  "preamble_en = ''You are a compassionate mental health AI assistant. Listen actively, provide support, and detect if the user needs professional help. If they mention suicide or self-harm, suggest immediate help. Respond in the same language as the user.''"

definition chat_preamble :: "string \<Rightarrow> string" where
  "chat_preamble input =
     (if list_ex (\<lambda>word. str_includes (toLowerCase input) word) swahiliWords
      then preamble_sw else preamble_en)"

definition chatHistory :: "Message list \<Rightarrow> (string \<times> string) list" where
  "chatHistory ms =
     map (\<lambda>m. (if m_role m = ''assistant'' then ''CHATBOT'' else ''USER'', m_content m)) ms"

text \<open>The check for escalation, as the source writes it.\<close>

definition needs_escalation :: "string \<Rightarrow> bool" where
  "needs_escalation input =
     (str_includes (toLowerCase input) ''suicide'' \<or>
      str_includes (toLowerCase input) ''kill myself'' \<or>
      str_includes (toLowerCase input) ''self-harm'' \<or>
      str_includes (toLowerCase input) ''professional'' \<or>
      str_includes (toLowerCase input) ''therapist'' \<or>
      str_includes (toLowerCase input) ''counselor'' \<or>
      str_includes (toLowerCase input) ''help me professionally'' \<or>
      str_includes (toLowerCase input) ''kujiua'' \<or>
      str_includes (toLowerCase input) ''kujidhuru'' \<or>
      str_includes (toLowerCase input) ''msaada wa kitaalamu'' \<or>
      str_includes (toLowerCase input) ''daktari wa akili'')"

definition escalation_reason :: "string \<Rightarrow> string" where
  "escalation_reason input =
     (if needs_escalation input then
        (if str_includes (toLowerCase input) ''suicide'' \<or>
            str_includes (toLowerCase input) ''kill myself'' \<or>
            str_includes (toLowerCase input) ''self-harm'' \<or>
            str_includes (toLowerCase input) ''kujiua'' \<or>
            str_includes (toLowerCase input) ''kujidhuru''
         then ''crisis'' else ''requested_professional'')
      else [])"

definition add_user_message :: "nat \<Rightarrow> string \<Rightarrow> unit io" where
  "add_user_message cv input =
     try_catch
       (bnd (message_findFirst cv ''user'' input) (\<lambda>existing.
          if existing = None then message_create cv ''user'' input else ret ()))
       (\<lambda>e. ret ())"

definition lift :: "jserror + 'a \<Rightarrow> 'a io" where
  "lift r = (case r of Inl e \<Rightarrow> throw e | Inr x \<Rightarrow> ret x)"

definition chat_turn :: "env \<Rightarrow> string \<Rightarrow> nat \<Rightarrow> Message list \<Rightarrow> AIResponse io" where
  \<open>chat_turn ev input cv msgs =
     try_catch
       (bnd (lift (cohere_chat ev input (chatHistory msgs) (chat_preamble input))) (\<lambda>txt.
          let aiResponse = (if txt = [] then ''I'm here to listen.'' else txt)
          in bnd (message_create cv ''assistant'' aiResponse) (\<lambda>u.
               ret \<lparr>response = aiResponse,
                    needsEscalation = needs_escalation input,
                    escalationReason = escalation_reason input\<rparr>)))
       (\<lambda>error.
          if message error = ''AI response timeout''
          then ret \<lparr>response = ''I'm taking a bit longer to respond. Please hold on.'',
                    needsEscalation = False, escalationReason = []\<rparr>
          else ret \<lparr>response = ''I'm sorry, I'm having trouble responding right now. Please try again.'',
                    needsEscalation = False, escalationReason = []\<rparr>)\<close>

definition getAIResponse :: "env \<Rightarrow> string \<Rightarrow> nat \<Rightarrow> AIResponse io" where
  "getAIResponse ev input callId =
     bnd (call_with_messages callId) (\<lambda>call.
       case call of
         Some (c, Some (cv, msgs)) \<Rightarrow>
           bnd (add_user_message cv input) (\<lambda>u. chat_turn ev input cv msgs)
       | _ \<Rightarrow> ret \<lparr>response = ''Sorry, there was an error.'',
                     needsEscalation = False, escalationReason = []\<rparr>)"

section \<open>app/api/twilio/webhook/route.ts\<close>

subsection \<open>Requests, responses and the documents\<close>

text \<open>The fields of the form the handler reads; \<open>None\<close> is a field that is absent.\<close>

record form =
  SpeechResult :: "string option"
  CallSid :: string
  From :: string
  To :: string
  CallStatus :: "string option"

record http_response =
  r_status :: nat
  r_contentType :: "string option"
  r_body :: string

text \<open>\<open>new NextResponse(xml, { headers: { 'Content-Type': 'text/xml' } })\<close>; the
  status defaults to 200.\<close>

definition xml_response :: "string \<Rightarrow> http_response" where
  "xml_response xml = \<lparr>r_status = 200, r_contentType = Some ''text/xml'', r_body = xml\<rparr>"

text \<open>\<open>new NextResponse('', { status: 200 })\<close>: no header is given, and a body that is
  a string gets the content type of plain text.\<close>

definition empty_response :: http_response where
  "empty_response =
     \<lparr>r_status = 200, r_contentType = Some ''text/plain;charset=UTF-8'', r_body = []\<rparr>"

definition nl :: string where
  "nl = [CHR 0x0A]"

definition xml_header :: string where
  \<open>xml_header = ''<?xml version="1.0" encoding="UTF-8"?>''\<close>

definition gather_open :: string where
  \<open>gather_open = ''  <Gather input="speech" action="/api/twilio/webhook" method="POST" speechTimeout="3" timeout="10" statusCallback="/api/twilio/webhook" statusCallbackEvent="completed">''\<close>

definition greeting_xml :: string where
  \<open>greeting_xml = join nl
     [xml_header,
      ''<Response>'',
      ''  <Say voice="alice">Hello! I'm your mental health support assistant. How are you feeling today?</Say>'',
      gather_open,
      ''    <Say>Please speak after the beep, and I'll listen.</Say>'',
      ''  </Gather>'',
      ''  <Say>I didn't hear anything. Please try calling again.</Say>'',
      ''</Response>'']\<close>

definition teacher_xml :: "string \<Rightarrow> string" where
  \<open>teacher_xml speakReply = join nl
     [xml_header,
      ''<Response>'',
      ''  <Say voice="alice">'' @ speakReply @ ''</Say>'',
      gather_open,
      ''    <Say>Please speak the next entries after the beep.</Say>'',
      ''  </Gather>'',
      ''  <Say>Thank you. Goodbye.</Say>'',
      ''</Response>'']\<close>

definition dial_xml :: "string \<Rightarrow> string" where
  \<open>dial_xml phone = join nl
     [xml_header,
      ''<Response>'',
      ''  <Say voice="alice">I understand you need professional help. I'm connecting you with a licensed counselor. Please hold while I transfer your call.</Say>'',
      ''  <Dial>'' @ phone @ ''</Dial>'',
      ''  <Say voice="alice">The counselor is unavailable right now. Please call back later or contact emergency services if you're in immediate danger.</Say>'',
      ''</Response>'']\<close>

definition no_counselor_xml :: string where
  \<open>no_counselor_xml = join nl
     [xml_header,
      ''<Response>'',
      ''  <Say voice="alice">I understand you need professional help. Our counselors are currently unavailable. Please contact the National Suicide Prevention Lifeline at 988, or visit emergency room if you're in immediate danger.</Say>'',
      ''</Response>'']\<close>

definition conversation_xml :: "string \<Rightarrow> string" where
  \<open>conversation_xml cleanResponse = join nl
     [xml_header,
      ''<Response>'',
      gather_open,
      ''    <Say voice="alice">'' @ cleanResponse @ ''</Say>'',
      ''    <Say>What would you like to talk about next?</Say>'',
      ''  </Gather>'',
      ''  <Say>Thank you for calling. Take care of yourself.</Say>'',
      ''</Response>'']\<close>

definition speech_error_xml :: string where
  \<open>speech_error_xml = join nl
     [xml_header,
      ''<Response>'',
      ''  <Say voice="alice">I'm sorry, I'm having trouble responding right now. Please try again.</Say>'',
      gather_open,
      ''    <Say>What would you like to talk about next?</Say>'',
      ''  </Gather>'',
      ''  <Say>Thank you for calling. Take care of yourself.</Say>'',
      ''</Response>'']\<close>

definition empty_speech_xml :: string where
  \<open>empty_speech_xml = join nl
     [xml_header,
      ''<Response>'',
      ''  <Say voice="alice">I didn't catch that. Could you please repeat?</Say>'',
      gather_open,
      ''    <Say>Please speak clearly after the beep.</Say>'',
      ''  </Gather>'',
      ''  <Say>Thank you for calling. Take care.</Say>'',
      ''</Response>'']\<close>

definition errorXml :: string where
  \<open>errorXml = join nl
     [xml_header,
      ''<Response>'',
      ''  <Say voice="alice">I'm sorry, I'm experiencing technical difficulties. Please try calling again later.</Say>'',
      ''</Response>'']\<close>

text \<open>A number in a template literal.\<close>

fun show_nat :: "nat \<Rightarrow> string" where
  "show_nat n =
     (if n < 10 then [char_of (48 + n)]
      else show_nat (n div 10) @ [char_of (48 + n mod 10)])"

declare show_nat.simps [simp del]

subsection \<open>Helpers of the handler\<close>

definition generateConversationSummary :: "nat \<Rightarrow> string io" where
  "generateConversationSummary callId =
     bnd (call_with_messages callId) (\<lambda>call.
       case call of
         Some (c, Some (cv, msgs)) \<Rightarrow>
           (let conversationText = join nl (map (\<lambda>m. m_role m @ '': '' @ m_content m) msgs)
            in ret (''Conversation summary: '' @ show_nat (length msgs) @
                    '' messages exchanged. Key topics: '' @ take 200 conversationText @ ''...''))
       | _ \<Rightarrow> ret ''No conversation history available.'')"

definition findAvailableCounselor :: "(nat \<times> User) option io" where
  "findAvailableCounselor =
     user_findFirst (\<lambda>u. u_role u = ''counselor'' \<and> u_status u = ''available'')"

definition terminal_statuses :: "string list" where
  "terminal_statuses = [''completed'', ''busy'', ''no-answer'', ''failed'', ''canceled'']"

definition is_terminal :: "form \<Rightarrow> bool" where
  "is_terminal f =
     (case CallStatus f of None \<Rightarrow> False | Some st \<Rightarrow> st \<noteq> [] \<and> st \<in> set terminal_statuses)"

text \<open>The user, the conversation and the call of a session that has no call row yet.\<close>

definition create_session :: "env \<Rightarrow> form \<Rightarrow> (nat \<times> Call) io" where
  "create_session ev f =
     bnd (user_upsert (default_status ev) (From f)) (\<lambda>user.
     bnd (conversation_create (fst user)) (\<lambda>conversation.
       call_create \<lparr>c_userId = fst user, c_twilioCallSid = CallSid f,
                    c_status = ''ai_handling'', c_endedAt = None,
                    c_assignedCounselorId = None, c_conversation = Some conversation\<rparr>))"

subsection \<open>Status updates: the call has ended\<close>

definition status_update :: "env \<Rightarrow> form \<Rightarrow> http_response io" where
  "status_update ev f =
     bnd (call_findUnique_sid (CallSid f)) (\<lambda>existingCall.
     bnd (case existingCall of
            None \<Rightarrow> ret ()
          | Some (cid, c) \<Rightarrow>
              if c_status c \<noteq> ''completed'' then
                bnd (call_update cid (\<lambda>r. r\<lparr>c_status := ''completed'', c_endedAt := Some (now ev)\<rparr>))
                  (\<lambda>u. case c_assignedCounselorId c of
                         None \<Rightarrow> ret ()
                       | Some k \<Rightarrow>
                           bnd (user_update k (\<lambda>r. r\<lparr>u_status := ''available''\<rparr>)) (\<lambda>u. ret ()))
              else ret ())
       (\<lambda>u. ret empty_response))"

subsection \<open>The call is starting\<close>

definition connect_call :: "env \<Rightarrow> form \<Rightarrow> unit io" where
  "connect_call ev f =
     (if CallStatus f = Some ''in-progress'' then
        bnd (call_findUnique_sid (CallSid f)) (\<lambda>existingCall.
          case existingCall of
            None \<Rightarrow> bnd (create_session ev f) (\<lambda>c. ret ())
          | Some c \<Rightarrow> ret ())
      else ret ())"

subsection \<open>Speech input\<close>

definition resolve_call :: "env \<Rightarrow> form \<Rightarrow> (nat \<times> Call) io" where
  "resolve_call ev f =
     bnd (call_findUnique_sid (CallSid f)) (\<lambda>call.
       case call of
         Some c \<Rightarrow> ret c
       | None \<Rightarrow> create_session ev f)"

definition ensure_conversation :: "nat \<times> Call \<Rightarrow> (nat \<times> Call) io" where
  "ensure_conversation call =
     (if c_conversation (snd call) = None then
        bnd (conversation_create (c_userId (snd call))) (\<lambda>conversation.
          call_update (fst call) (\<lambda>r. r\<lparr>c_conversation := Some conversation\<rparr>))
      else ret call)"

definition persist_transcript :: "string \<Rightarrow> nat \<times> Call \<Rightarrow> unit io" where
  "persist_transcript speechResult call =
     (case c_conversation (snd call) of
        None \<Rightarrow> ret ()
      | Some cv \<Rightarrow>
          bnd (message_findFirst cv ''user'' speechResult) (\<lambda>existingMsg.
            if existingMsg = None then message_create cv ''user'' speechResult else ret ()))"

text \<open>
  The \<open>try\<close> block that persists the transcription. It may assign the variable
  \<open>call\<close>; the catch clause keeps the value the variable has when the error is
  thrown.
\<close>

definition save_transcription :: "string \<Rightarrow> nat \<times> Call \<Rightarrow> (nat \<times> Call) io" where
  "save_transcription speechResult call =
     try_catch
       (bnd (ensure_conversation call) (\<lambda>call'.
          try_catch
            (bnd (persist_transcript speechResult call') (\<lambda>u. ret call'))
            (\<lambda>msgErr. ret call')))
       (\<lambda>msgErr. ret call)"

text \<open>A string that is neither \<open>undefined\<close> nor empty.\<close>

definition truthy :: "string option \<Rightarrow> bool" where
  "truthy v = (case v of None \<Rightarrow> False | Some s \<Rightarrow> s \<noteq> [])"

definition adapt_parsed :: "ParsedGradesResult \<Rightarrow> AIExtractResult" where
  "adapt_parsed parsed =
     \<lparr>className = className parsed, entries = entries parsed,
      missing = None, assistantReply = None\<rparr>"

text \<open>The extractor first, the heuristic parser when it returned no entries.\<close>

definition extraction_pipeline :: "env \<Rightarrow> string \<Rightarrow> jserror + AIExtractResult" where
  "extraction_pipeline ev speechResult =
     (case extractGradesWithOpenAI ev speechResult of
        Inl e \<Rightarrow> Inl e
      | Inr parsedResult \<Rightarrow>
          if entries parsedResult = [] then Inr (adapt_parsed (parseGrades speechResult))
          else Inr parsedResult)"

definition ensure_classroom :: "string option \<Rightarrow> nat \<Rightarrow> nat option io" where
  "ensure_classroom cn teacherId =
     (if truthy cn then
        bnd (classroom_findFirst (the cn) teacherId) (\<lambda>classroom.
          case classroom of
            Some (k, c) \<Rightarrow> ret (Some k)
          | None \<Rightarrow> bnd (classroom_create (the cn) teacherId) (\<lambda>k. ret (Some k)))
      else ret None)"

text \<open>The loop over the entries; the last argument is \<open>savedCount\<close>.\<close>

fun save_entries :: "nat option \<Rightarrow> ParsedGradeEntry list \<Rightarrow> nat \<Rightarrow> nat io" where
  "save_entries classroomId [] savedCount = ret savedCount"
| "save_entries classroomId (e # es) savedCount =
     (let name = trim (studentName e)
      in if name = [] then save_entries classroomId es savedCount
         else
           bnd (student_findFirst name classroomId) (\<lambda>found.
           bnd (case found of
                  Some (k, st) \<Rightarrow> ret k
                | None \<Rightarrow> student_create name classroomId) (\<lambda>student.
             case grade e of
               Some g \<Rightarrow>
                 bnd (grade_create \<lparr>g_studentId = student,
                                    g_subject = (if truthy (subject e) then the (subject e)
                                                 else ''General''),
                                    g_value = g\<rparr>)
                   (\<lambda>u. save_entries classroomId es (Suc savedCount))
             | None \<Rightarrow> save_entries classroomId es savedCount)))"

definition confirm_text :: "AIExtractResult \<Rightarrow> nat \<Rightarrow> string" where
  "confirm_text parsedResult savedCount =
     join '' ''
       ([''Saved '' @ show_nat savedCount @ '' grade(s)'' @
           (if truthy (className parsedResult)
            then '' for class '' @ the (className parsedResult) else []) @ ''.''] @
        (case missing parsedResult of
           None \<Rightarrow> []
         | Some ms \<Rightarrow>
             if ms \<noteq> []
             then [''I noticed these students mentioned without grades: '' @ join '', '' ms @ ''.'']
             else []))"

definition save_confirmation :: "nat \<times> Call \<Rightarrow> string \<Rightarrow> unit io" where
  "save_confirmation call confirmText =
     (case c_conversation (snd call) of
        None \<Rightarrow>
          bnd (conversation_create (c_userId (snd call))) (\<lambda>conversation.
          bnd (call_update (fst call) (\<lambda>r. r\<lparr>c_conversation := Some conversation\<rparr>)) (\<lambda>u.
            message_create conversation ''assistant'' confirmText))
      | Some cv \<Rightarrow> message_create cv ''assistant'' confirmText)"

definition speak_reply :: "AIExtractResult \<Rightarrow> string \<Rightarrow> string" where
  "speak_reply parsedResult confirmText =
     (if truthy (assistantReply parsedResult) then the (assistantReply parsedResult)
      else confirmText @ '' Would you like to add more grades?'')"

definition teacher_grades :: "env \<Rightarrow> string \<Rightarrow> nat \<times> Call \<Rightarrow> nat \<Rightarrow> http_response option io" where
  "teacher_grades ev speechResult call teacherId =
     bnd (lift (extraction_pipeline ev speechResult)) (\<lambda>parsedResult.
       if entries parsedResult \<noteq> [] then
         bnd (ensure_classroom (className parsedResult) teacherId) (\<lambda>classroomId.
         bnd (save_entries classroomId (entries parsedResult) 0) (\<lambda>savedCount.
           let confirmText = confirm_text parsedResult savedCount
           in bnd (save_confirmation call confirmText) (\<lambda>u.
                ret (Some (xml_response (teacher_xml (speak_reply parsedResult confirmText)))))))
       else ret None)"

text \<open>The \<open>try\<close> block for a teacher: \<open>Some\<close> is the response it returns,
  \<open>None\<close> means that the handler goes on to the AI response.\<close>

definition teacher_turn :: "env \<Rightarrow> string \<Rightarrow> nat \<times> Call \<Rightarrow> http_response option io" where
  "teacher_turn ev speechResult call =
     try_catch
       (bnd (user_findUnique (c_userId (snd call))) (\<lambda>caller.
          case caller of
            Some (tid, u) \<Rightarrow>
              if u_role u = ''teacher'' then teacher_grades ev speechResult call tid
              else ret None
          | None \<Rightarrow> ret None))
       (\<lambda>gradeErr. ret None)"

definition escalate :: "nat \<times> Call \<Rightarrow> AIResponse \<Rightarrow> http_response io" where
  "escalate call aiResult =
     bnd (generateConversationSummary (fst call)) (\<lambda>summary.
     bnd findAvailableCounselor (\<lambda>counselor.
       case counselor of
         Some (k, u) \<Rightarrow>
           bnd (escalation_create
                  \<lparr>e_callId = fst call, e_counselorId = k,
                   e_notes = ''Reason: '' @ escalationReason aiResult @ nl @
                             ''Summary: '' @ summary\<rparr>) (\<lambda>u1.
           bnd (call_update (fst call)
                  (\<lambda>r. r\<lparr>c_status := ''counselor_assigned'',
                          c_assignedCounselorId := Some k\<rparr>)) (\<lambda>u2.
           bnd (user_update k (\<lambda>r. r\<lparr>u_status := ''busy''\<rparr>)) (\<lambda>u3.
             ret (xml_response (dial_xml (u_phone u))))))
       | None \<Rightarrow> ret (xml_response no_counselor_xml)))"

text \<open>\<open>aiResult.response.replace(/[<>&'"]/g, '').trim()\<close>\<close>

definition clean :: "string \<Rightarrow> string" where
  "clean s = trim (filter (\<lambda>c. c \<notin> {CHR ''<'', CHR ''>'', CHR ''&'', CHR 0x27, CHR 0x22}) s)"

definition converse :: "env \<Rightarrow> string \<Rightarrow> nat \<times> Call \<Rightarrow> http_response io" where
  \<open>converse ev speechResult call =
     bnd (getAIResponse ev speechResult (fst call)) (\<lambda>aiResult.
       if needsEscalation aiResult then escalate call aiResult
       else
         (let cleanResponse = (if clean (response aiResult) = []
                               then ''I'm here to listen. How are you feeling?''
                               else clean (response aiResult))
          in ret (xml_response (conversation_xml cleanResponse))))\<close>

definition speech_turn :: "env \<Rightarrow> form \<Rightarrow> string \<Rightarrow> http_response io" where
  "speech_turn ev f speechResult =
     try_catch
       (bnd (resolve_call ev f) (\<lambda>call0.
        bnd (save_transcription speechResult call0) (\<lambda>call.
        bnd (teacher_turn ev speechResult call) (\<lambda>reply.
          case reply of
            Some r \<Rightarrow> ret r
          | None \<Rightarrow> converse ev speechResult call))))
       (\<lambda>dbError. ret (xml_response speech_error_xml))"

subsection \<open>The handler\<close>

definition handle :: "env \<Rightarrow> form \<Rightarrow> http_response io" where
  "handle ev f =
     (if is_terminal f then status_update ev f
      else
        bnd (connect_call ev f) (\<lambda>u.
          if \<not> truthy (SpeechResult f) then ret (xml_response greeting_xml)
          else if trim (the (SpeechResult f)) \<noteq> [] then speech_turn ev f (the (SpeechResult f))
          else ret (xml_response empty_speech_xml)))"

text \<open>\<open>POST\<close>: the handler inside its outer \<open>try\<close>, run on the store. The result
  is the response and the store the request leaves.\<close>

definition POST :: "env \<Rightarrow> form \<Rightarrow> db \<Rightarrow> http_response \<times> db" where
  "POST ev f d =
     (case handle ev f \<lparr>store = d, faults = storage_faults ev\<rparr> of
        (Inr r, s) \<Rightarrow> (r, store s)
      | (Inl error, s) \<Rightarrow> (xml_response errorXml, store s))"

section \<open>The specification's vocabulary\<close>

subsection \<open>Escalation lexicons\<close>

text \<open>
  The specification describes the escalation check as a match of the utterance against
  two lexicons, the crisis lexicon first. \<open>classify\<close> follows these words; it is
  compared below with \<open>needs_escalation\<close> and \<open>escalation_reason\<close>, which follow the
  source.
\<close>

definition crisis_lexicon :: "string list" where
  "crisis_lexicon = [''suicide'', ''kill myself'', ''self-harm'', ''kujiua'', ''kujidhuru'']"

definition professional_lexicon :: "string list" where
  "professional_lexicon =
     [''professional'', ''therapist'', ''counselor'', ''help me professionally'',
      ''msaada wa kitaalamu'', ''daktari wa akili'']"

definition matches :: "string list \<Rightarrow> string \<Rightarrow> bool" where
  "matches lexicon utterance = list_ex (\<lambda>k. str_includes (toLowerCase utterance) k) lexicon"

definition classify :: "string \<Rightarrow> bool \<times> string" where
  "classify utterance =
     (if matches crisis_lexicon utterance then (True, ''crisis'')
      else if matches professional_lexicon utterance then (True, ''requested_professional'')
      else (False, []))"

text \<open>The three fixed replies of \<open>getAIResponse\<close> that carry no escalation.\<close>

definition fixed_replies :: "string list" where
  \<open>fixed_replies =
     [''Sorry, there was an error.'',
      ''I'm taking a bit longer to respond. Please hold on.'',
      ''I'm sorry, I'm having trouble responding right now. Please try again.'']\<close>

subsection \<open>Sample runs\<close>

text \<open>Services that are down: both external calls time out and nothing parses.\<close>

definition env_down :: env where
  "env_down =
     \<lparr>cohere_chat = (\<lambda>m h p. Inl timeout_error),
      openai_chat = (\<lambda>sys usr. Inl timeout_error),
      JSON_parse = (\<lambda>s. None), Number_of = (\<lambda>s. None), String_of = (\<lambda>r. []),
      now = 0, default_status = ''offline'', storage_faults = []\<rparr>"

text \<open>Services that answer: the completion service replies with a fixed sentence.\<close>

definition env_up :: env where
  "env_up = env_down\<lparr>cohere_chat := (\<lambda>m h p. Inr ''I hear you.'')\<rparr>"

definition alice :: string where
  "alice = ''Alice: Math 92, Biology 88''"

text \<open>A teacher (user 0) on the call \<open>CA1\<close>, whose conversation is still empty.\<close>

definition db_teacher :: db where
  "db_teacher =
     \<lparr>users = [\<lparr>u_phone = ''+15551234567'', u_role = ''teacher'', u_status = ''offline''\<rparr>],
      calls = [\<lparr>c_userId = 0, c_twilioCallSid = ''CA1'', c_status = ''ai_handling'',
                c_endedAt = None, c_assignedCounselorId = None, c_conversation = Some 0\<rparr>],
      conversations = [\<lparr>cv_userId = 0\<rparr>],
      messages = [], escalations = [], classrooms = [], students = [], grades = []\<rparr>"

definition dictation :: form where
  "dictation = \<lparr>SpeechResult = Some alice, CallSid = ''CA1'', From = ''+15551234567'',
                To = ''+15550000000'', CallStatus = None\<rparr>"

text \<open>A caller (user 0) on the call \<open>CA1\<close> with an empty conversation, and one
  counselor (user 1).\<close>

definition db_caller :: db where
  "db_caller =
     \<lparr>users = [\<lparr>u_phone = ''+15550001111'', u_role = ''user'', u_status = ''offline''\<rparr>,
               \<lparr>u_phone = ''+15550002222'', u_role = ''counselor'', u_status = ''available''\<rparr>],
      calls = [\<lparr>c_userId = 0, c_twilioCallSid = ''CA1'', c_status = ''ai_handling'',
                c_endedAt = None, c_assignedCounselorId = None, c_conversation = Some 0\<rparr>],
      conversations = [\<lparr>cv_userId = 0\<rparr>],
      messages = [], escalations = [], classrooms = [], students = [], grades = []\<rparr>"

text \<open>An utterance with a crisis term and a request for a professional, in mixed case
  and in lower case, and a run of \<open>getAIResponse\<close> on it.\<close>

definition u0 :: string where "u0 = ''Get me a THERAPIST or I will Kill Myself''"
definition v0 :: string where "v0 = ''get me a therapist or i will kill myself''"

definition s0 :: state where "s0 = \<lparr>store = db_caller, faults = []\<rparr>"
definition r0 :: AIResponse where
  "r0 = \<lparr>response = ''I hear you.'', needsEscalation = True, escalationReason = ''crisis''\<rparr>"
definition s1 :: state where
  "s1 = \<lparr>store = db_caller\<lparr>messages :=
           [\<lparr>m_conversationId = 0, m_role = ''user'', m_content = u0\<rparr>,
            \<lparr>m_conversationId = 0, m_role = ''assistant'', m_content = ''I hear you.''\<rparr>]\<rparr>,
          faults = []\<rparr>"

subsection \<open>Failure of the extractor\<close>

text \<open>
  The failure modes of the probabilistic extractor that the specification names: the
  call times out or throws, the completion carries no text, or its text is not JSON
  (neither as it is nor with single quotes turned into double quotes).
\<close>

definition extractor_fails :: "env \<Rightarrow> string \<Rightarrow> bool" where
  "extractor_fails ev utterance =
     (case openai_chat ev system_prompt (user_prompt utterance) of
        Inl err \<Rightarrow> True
      | Inr completion \<Rightarrow>
          (case completion_content completion of
             None \<Rightarrow> True
           | Some raw \<Rightarrow>
               raw = [] \<or>
               (JSON_parse ev (json_text raw) = None \<and>
                JSON_parse ev (single_to_double (json_text raw)) = None)))"

definition clarification_lines :: "string list" where
  "clarification_lines =
     [''I could not parse any grades. Could you repeat them more clearly?'',
      ''I had trouble extracting structured grades. Could you rephrase?'',
      ''I am having trouble parsing that right now. Could you repeat?'']"

text \<open>An extractor that answers with text that is not JSON.\<close>

definition env_prose :: env where
  "env_prose =
     env_down\<lparr>openai_chat := (\<lambda>sys usr.
       Inr (JObj [(''choices'',
              JArr [JObj [(''message'', JObj [(''content'', JStr ''Sorry, no grades here.'')])]])]))\<rparr>"

text \<open>The caller's store with a storage layer that works, and the reply of
  \<open>getAIResponse\<close> on a timeout.\<close>

definition s_caller :: state where "s_caller = \<lparr>store = db_caller, faults = []\<rparr>"

definition timeout_reply :: AIResponse where
  \<open>timeout_reply = \<lparr>response = ''I'm taking a bit longer to respond. Please hold on.'',
      needsEscalation = False, escalationReason = []\<rparr>\<close>

subsection \<open>Voice-response documents\<close>

text \<open>
  What the specification asks of a response document: it instructs the gateway to speak a
  line and listen again, or to bridge the call to a number, or to speak a line and end.
  The gateway reads the document as XML, so the verbs are read here by a reader of the
  XML the handler writes: a \<open>Response\<close> element, after an optional XML declaration,
  whose children are \<open>Say\<close> and \<open>Dial\<close> elements holding character data and
  \<open>Gather\<close> elements holding \<open>Say\<close> elements.

  \<open>tokens\<close> cuts a document into tags and the text between them; the text before the
  first tag, between two tags and after the last tag is always there, possibly empty. A
  \<open><\<close> inside a tag and an end of the document inside a tag are errors. In character
  data \<open>&\<close> has to begin one of the five predefined entities (\<open>escaped\<close>).
\<close>

datatype token = Tag string | Text string

fun tokens :: "string \<Rightarrow> string \<Rightarrow> bool \<Rightarrow> token list option" where
  "tokens [] acc in_tag = (if in_tag then None else Some [Text (rev acc)])"
| "tokens (c # cs) acc False =
     (if c = CHR ''<'' then map_option (Cons (Text (rev acc))) (tokens cs [] True)
      else tokens cs (c # acc) False)"
| "tokens (c # cs) acc True =
     (if c = CHR ''>'' then map_option (Cons (Tag (rev acc))) (tokens cs [] False)
      else if c = CHR ''<'' then None
      else tokens cs (c # acc) True)"

definition xml_space :: "char \<Rightarrow> bool" where
  "xml_space c = (c = CHR '' '' \<or> c = CHR 0x09 \<or> c = CHR 0x0A \<or> c = CHR 0x0D)"

definition blank :: "string \<Rightarrow> bool" where
  "blank s = list_all xml_space s"

definition tag_name :: "string \<Rightarrow> string" where
  "tag_name tag = takeWhile (\<lambda>c. \<not> xml_space c) tag"

definition entities :: "string list" where
  "entities = [''amp;'', ''lt;'', ''gt;'', ''apos;'', ''quot;'']"

fun escaped :: "string \<Rightarrow> bool" where
  "escaped [] = True"
| "escaped (c # cs) =
     ((if c = CHR ''&'' then list_ex (\<lambda>e. prefix e cs) entities else True) \<and> escaped cs)"

text \<open>The verbs of a document. The first argument of \<open>verbs\<close> is \<open>None\<close> among the
  children of \<open>Response\<close> and holds the lines read so far, last first, inside a
  \<open>Gather\<close>.\<close>

datatype verb = Say string | Gather "verb list" | Dial string

fun verbs :: "verb list option \<Rightarrow> token list \<Rightarrow> verb list option" where
  "verbs g [Tag a, Text w] =
     (if g = None \<and> a = ''/Response'' \<and> blank w then Some [] else None)"
| "verbs g (Tag a # Text t # Tag b # Text w # ts) =
     (case g of
        None \<Rightarrow>
          if tag_name a = ''Gather'' \<and> blank t then verbs (Some []) (Tag b # Text w # ts)
          else if tag_name a = ''Say'' \<and> b = ''/Say'' \<and> escaped t \<and> blank w
          then map_option (Cons (Say t)) (verbs None ts)
          else if tag_name a = ''Dial'' \<and> b = ''/Dial'' \<and> escaped t \<and> blank w
          then map_option (Cons (Dial t)) (verbs None ts)
          else None
      | Some inner \<Rightarrow>
          if a = ''/Gather'' \<and> blank t
          then map_option (Cons (Gather (rev inner))) (verbs None (Tag b # Text w # ts))
          else if tag_name a = ''Say'' \<and> b = ''/Say'' \<and> escaped t \<and> blank w
          then verbs (Some (Say t # inner)) ts
          else None)"
| "verbs g ts = None"

definition xml_declaration :: "string \<Rightarrow> bool" where
  "xml_declaration tag = (tag_name tag = ''?xml'' \<and> tag \<noteq> [] \<and> last tag = CHR ''?'')"

definition parse_twiml :: "string \<Rightarrow> verb list option" where
  "parse_twiml doc =
     (case tokens doc [] False of
        Some (Text w0 # Tag x # Text w1 # ts) \<Rightarrow>
          if w0 = [] \<and> xml_declaration x \<and> blank w1 then
            (case ts of
               Tag r # Text w2 # ts' \<Rightarrow>
                 if r = ''Response'' \<and> blank w2 then verbs None ts' else None
             | _ \<Rightarrow> None)
          else if blank w0 \<and> x = ''Response'' \<and> blank w1 then verbs None ts
          else None
      | _ \<Rightarrow> None)"

text \<open>A line that is spoken; a verb that speaks, that listens, that bridges the call.
  \<open>instructs\<close> is the sentence of the specification.\<close>

definition spoken_line :: "verb \<Rightarrow> bool" where
  "spoken_line v = (case v of Say t \<Rightarrow> \<not> blank t | _ \<Rightarrow> False)"

definition speaks :: "verb \<Rightarrow> bool" where
  "speaks v = (case v of Say t \<Rightarrow> \<not> blank t | Gather vs \<Rightarrow> list_ex spoken_line vs | Dial n \<Rightarrow> False)"

definition listens :: "verb \<Rightarrow> bool" where
  "listens v = (case v of Gather vs \<Rightarrow> True | _ \<Rightarrow> False)"

definition bridges :: "verb \<Rightarrow> bool" where
  "bridges v = (case v of Dial n \<Rightarrow> \<not> blank n | _ \<Rightarrow> False)"

definition instructs :: "verb list \<Rightarrow> bool" where
  "instructs vs =
     ((list_ex speaks vs \<and> list_ex listens vs) \<or> list_ex bridges vs \<or>
      (vs \<noteq> [] \<and> list_all spoken_line vs))"

definition voice_document :: "string \<Rightarrow> bool" where
  "voice_document doc = (case parse_twiml doc of None \<Rightarrow> False | Some vs \<Rightarrow> instructs vs)"

text \<open>
  Text that can stand between the tags of a \<open>Say\<close> or \<open>Dial\<close> element as it is:
  it is not blank and has neither \<open><\<close> nor \<open>&\<close>. A \<open>raw_reply\<close> is the
  document of the teacher's path or of the escalation step around a text that is not
  plain. The response the gateway can act on for the event \<open>f\<close> has status 200 and a
  body that is empty only for a terminal status update and a voice-response document
  otherwise; \<open>acceptable\<close> is that, or an XML response with a raw reply.
\<close>

definition plain :: "string \<Rightarrow> bool" where
  "plain t = (\<not> blank t \<and> CHR ''<'' \<notin> set t \<and> CHR ''&'' \<notin> set t)"

definition raw_reply :: "string \<Rightarrow> bool" where
  "raw_reply doc = (\<exists>t. \<not> plain t \<and> (doc = teacher_xml t \<or> doc = dial_xml t))"

definition acceptable :: "form \<Rightarrow> http_response \<Rightarrow> bool" where
  "acceptable f r =
     (r_status r = 200 \<and>
      (if r_body r = [] then is_terminal f
       else r_contentType r = Some ''text/xml'' \<and>
            (voice_document (r_body r) \<or> raw_reply (r_body r))))"

subsection \<open>Reasoning about computations\<close>

text \<open>\<open>returns m P\<close>: whatever \<open>m\<close> returns (when it does not throw) satisfies
  \<open>P\<close>.\<close>

definition returns :: "'a io \<Rightarrow> ('a \<Rightarrow> bool) \<Rightarrow> bool" where
  "returns m P = (\<forall>s x s'. m s = (Inr x, s') \<longrightarrow> P x)"

text \<open>A storage layer whose first call fails, and the event that ends the call
  \<open>CA1\<close>.\<close>

definition env_broken :: env where
  "env_broken = env_down\<lparr>storage_faults := [True]\<rparr>"

definition hangup :: form where
  "hangup = \<lparr>SpeechResult = None, CallSid = ''CA1'', From = ''+15550001111'',
             To = ''+15550000000'', CallStatus = Some ''completed''\<rparr>"

text \<open>
  \<open>triple nf P m Q E\<close>: run from a store that satisfies \<open>P\<close>, the computation
  \<open>m\<close> leaves a store that satisfies \<open>Q x\<close> when it returns \<open>x\<close> and \<open>E\<close>
  when it throws. With \<open>nf\<close> the storage layer is taken not to fail: the schedule of
  failures is empty. \<open>keeps nf J m\<close>: \<open>m\<close> maintains \<open>J\<close>, however it ends.
\<close>

definition triple :: "bool \<Rightarrow> (db \<Rightarrow> bool) \<Rightarrow> 'a io \<Rightarrow> ('a \<Rightarrow> db \<Rightarrow> bool) \<Rightarrow> (db \<Rightarrow> bool) \<Rightarrow> bool" where
  "triple nf P m Q E =
     (\<forall>s. P (store s) \<and> (nf \<longrightarrow> faults s = []) \<longrightarrow>
        (case m s of
           (Inr x, s') \<Rightarrow> Q x (store s') \<and> (nf \<longrightarrow> faults s' = [])
         | (Inl e, s') \<Rightarrow> E (store s') \<and> (nf \<longrightarrow> faults s' = [])))"

definition keeps :: "bool \<Rightarrow> (db \<Rightarrow> bool) \<Rightarrow> 'a io \<Rightarrow> bool" where
  "keeps nf J m = triple nf J m (\<lambda>x. J) J"

subsection \<open>Stored user messages\<close>




text \<open>An utterance event on the call \<open>CA1\<close>.\<close>

definition feeling :: form where
  "feeling = \<lparr>SpeechResult = Some ''I feel sad'', CallSid = ''CA1'', From = ''+15550001111'',
              To = ''+15550000000'', CallStatus = None\<rparr>"



text \<open>
  The handler stores a user message in two places, each time after looking for an equal
  one; \<open>user_message_once\<close> is that pair of calls. \<open>writes_keep nf J\<close> says that the
  writes the handler makes outside the status update and the escalation step maintain
  \<open>J\<close>.
\<close>

definition user_message_once :: "nat \<Rightarrow> string \<Rightarrow> unit io" where
  "user_message_once cv t =
     bnd (message_findFirst cv ''user'' t)
       (\<lambda>existing. if existing = None then message_create cv ''user'' t else ret ())"

definition writes_keep :: "bool \<Rightarrow> (db \<Rightarrow> bool) \<Rightarrow> bool" where
  "writes_keep nf J =
     ((\<forall>uid sid cv. keeps nf J
          (call_create \<lparr>c_userId = uid, c_twilioCallSid = sid, c_status = ''ai_handling'',
                        c_endedAt = None, c_assignedCounselorId = None,
                        c_conversation = Some cv\<rparr>)) \<and>
      (\<forall>i cv. keeps nf J (call_update i (\<lambda>r. r\<lparr>c_conversation := Some cv\<rparr>))) \<and>
      (\<forall>dflt phone. keeps nf J (user_upsert dflt phone)) \<and>
      (\<forall>uid. keeps nf J (conversation_create uid)) \<and>
      (\<forall>cv t. keeps nf J (user_message_once cv t)) \<and>
      (\<forall>cv t. keeps nf J (message_create cv ''assistant'' t)) \<and>
      (\<forall>nm tid. keeps nf J (classroom_create nm tid)) \<and>
      (\<forall>nm cls. keeps nf J (student_create nm cls)) \<and>
      (\<forall>g. keeps nf J (grade_create g)))"

subsection \<open>Completed calls\<close>

text \<open>The call \<open>i\<close> with gateway identifier \<open>sid\<close> is completed; it is completed or
  assigned to a counselor.\<close>

definition done_inv :: "nat \<Rightarrow> string \<Rightarrow> db \<Rightarrow> bool" where
  "done_inv i sid d =
     (i < length (calls d) \<and> c_status (calls d ! i) = ''completed'' \<and>
      c_twilioCallSid (calls d ! i) = sid)"

definition done_or_assigned :: "nat \<Rightarrow> string \<Rightarrow> db \<Rightarrow> bool" where
  "done_or_assigned i sid d =
     (i < length (calls d) \<and> c_twilioCallSid (calls d ! i) = sid \<and>
      (c_status (calls d ! i) = ''completed'' \<or> c_status (calls d ! i) = ''counselor_assigned''))"

text \<open>An utterance event for the call \<open>sid\<close> whose utterance asks for escalation.\<close>

definition escalating_for :: "string \<Rightarrow> form \<Rightarrow> bool" where
  "escalating_for sid f =
     (\<not> is_terminal f \<and> CallSid f = sid \<and>
      (case SpeechResult f of None \<Rightarrow> False | Some u \<Rightarrow> needs_escalation u))"

text \<open>A sequence of webhook events, each with the behaviour of the services and of the
  storage layer while it is handled.\<close>

fun run :: "(env \<times> form) list \<Rightarrow> db \<Rightarrow> db" where
  "run [] d = d"
| "run ((ev, f) # rest) d = run rest (snd (POST ev f d))"

text \<open>The call \<open>CA1\<close> completed, with the counselor (user 1) available again, and an
  utterance that arrives for it afterwards.\<close>

definition db_done :: db where
  "db_done =
     db_caller\<lparr>calls := [\<lparr>c_userId = 0, c_twilioCallSid = ''CA1'', c_status = ''completed'',
                            c_endedAt = Some 5, c_assignedCounselorId = None,
                            c_conversation = Some 0\<rparr>]\<rparr>"

definition late_utterance :: form where
  "late_utterance = \<lparr>SpeechResult = Some ''I need a therapist'', CallSid = ''CA1'',
                     From = ''+15550001111'', To = ''+15550000000'', CallStatus = None\<rparr>"

subsection \<open>The end of a call\<close>

text \<open>The store after the status update for the call \<open>i\<close> with row \<open>c\<close>: the call
  is completed and stamped, and its counselor, if it has one, is available.\<close>

definition completed_store :: "env \<Rightarrow> nat \<Rightarrow> Call \<Rightarrow> db \<Rightarrow> db" where
  "completed_store ev i c d =
     d\<lparr>calls := (calls d)[i := c\<lparr>c_status := ''completed'', c_endedAt := Some (now ev)\<rparr>],
       users := (case c_assignedCounselorId c of
                   None \<Rightarrow> users d
                 | Some k \<Rightarrow> (users d)[k := (users d ! k)\<lparr>u_status := ''available''\<rparr>])\<rparr>"

text \<open>The call \<open>CA1\<close> in the hands of the counselor (user 1), who is busy.\<close>

definition call_assigned :: Call where
  "call_assigned = \<lparr>c_userId = 0, c_twilioCallSid = ''CA1'', c_status = ''counselor_assigned'',
                     c_endedAt = None, c_assignedCounselorId = Some 1, c_conversation = Some 0\<rparr>"

definition db_assigned :: db where
  "db_assigned =
     db_caller\<lparr>users := [\<lparr>u_phone = ''+15550001111'', u_role = ''user'', u_status = ''offline''\<rparr>,
                           \<lparr>u_phone = ''+15550002222'', u_role = ''counselor'', u_status = ''busy''\<rparr>],
                calls := [call_assigned]\<rparr>"

text \<open>The event \<open>hangup\<close> with the status \<open>no-answer\<close>, and a storage layer whose
  third operation fails: in the status update that is the update of the counselor, after
  the call has been found and updated.\<close>

definition no_answer :: form where
  "no_answer = hangup\<lparr>CallStatus := Some ''no-answer''\<rparr>"

definition env_release_fails :: env where
  "env_release_fails = env_down\<lparr>storage_faults := [False, False, True]\<rparr>"

subsection \<open>Runs without storage failures\<close>

text \<open>\<open>succeeds P m\<close>: when the storage layer does not fail, \<open>m\<close> returns (it does
  not throw) and maintains \<open>P\<close>. \<open>valid_call i\<close>: the call table has a row \<open>i\<close>.\<close>

definition succeeds :: "(db \<Rightarrow> bool) \<Rightarrow> 'a io \<Rightarrow> bool" where
  "succeeds P m = triple True P m (\<lambda>x. P) (\<lambda>d. False)"

definition valid_call :: "nat \<Rightarrow> db \<Rightarrow> bool" where
  "valid_call i d = (i < length (calls d))"

text \<open>An extractor whose output carries markup in its reply: the text of the completion,
  the value \<open>JSON.parse\<close> gives for it, and the result of the extractor.\<close>

definition markup_reply :: string where
  "markup_reply = ''Noted <Tom> & more''"

definition markup_raw :: string where
  \<open>markup_raw = ''{"assistantReply":"Noted <Tom> & more","entries":[{"studentName":"Tom","grade":90}]}''\<close>

definition markup_json :: json where
  "markup_json =
     JObj [(''assistantReply'', JStr markup_reply),
           (''entries'', JArr [JObj [(''studentName'', JStr ''Tom''), (''grade'', JNum 90)]])]"

definition env_markup :: env where
  "env_markup =
     env_down\<lparr>openai_chat := (\<lambda>sys usr.
                  Inr (JObj [(''choices'',
                         JArr [JObj [(''message'', JObj [(''content'', JStr markup_raw)])]])])),
               JSON_parse := (\<lambda>s. if s = markup_raw then Some markup_json else None)\<rparr>"

definition markup_result :: AIExtractResult where
  "markup_result =
     \<lparr>className = None,
      entries = [\<lparr>studentName = ''Tom'', subject = None, grade = Some 90\<rparr>],
      missing = None, assistantReply = Some markup_reply\<rparr>"

subsection \<open>The pool of counselors\<close>

text \<open>
  \<open>assigned_open d k i\<close>: the call \<open>i\<close> is open (not completed) and assigned to the
  counselor \<open>k\<close>. A store is \<open>exclusive\<close> when no counselor is assigned to two open
  calls. The handler keeps this together with two more facts: a user whose status is
  available has no open call (\<open>idle_free\<close>), and an assigned counselor is a row of the
  user table (\<open>refs_ok\<close>). \<open>pool_pending k\<close> is the state between the two writes of the
  escalation step: the call is assigned to \<open>k\<close>, who is not yet busy.
\<close>

definition counselor_at :: "db \<Rightarrow> nat \<Rightarrow> nat option" where
  "counselor_at d i = (if i < length (calls d) then c_assignedCounselorId (calls d ! i) else None)"

definition assigned_open :: "db \<Rightarrow> nat \<Rightarrow> nat \<Rightarrow> bool" where
  "assigned_open d k i =
     (counselor_at d i = Some k \<and> c_status (calls d ! i) \<noteq> ''completed'')"

definition exclusive :: "db \<Rightarrow> bool" where
  "exclusive d = (\<forall>k i j. assigned_open d k i \<and> assigned_open d k j \<longrightarrow> i = j)"

definition idle_free :: "db \<Rightarrow> bool" where
  "idle_free d =
     (\<forall>k i. k < length (users d) \<and> u_status (users d ! k) = ''available'' \<longrightarrow>
            \<not> assigned_open d k i)"

definition refs_ok :: "db \<Rightarrow> bool" where
  "refs_ok d = (\<forall>i k. counselor_at d i = Some k \<longrightarrow> k < length (users d))"

definition pool_inv :: "db \<Rightarrow> bool" where
  "pool_inv d = (refs_ok d \<and> exclusive d \<and> idle_free d)"

definition pool_pending :: "nat \<Rightarrow> db \<Rightarrow> bool" where
  "pool_pending k d =
     (refs_ok d \<and> exclusive d \<and> k < length (users d) \<and>
      (\<forall>k' i. k' < length (users d) \<and> u_status (users d ! k') = ''available'' \<and> k' \<noteq> k \<longrightarrow>
              \<not> assigned_open d k' i))"

text \<open>
  The row that \<open>findAvailableCounselor\<close> looks for, and the counselors of a store that
  are available. \<open>answers ev\<close>: the completion service returns a text. An escalating
  turn for the call \<open>i\<close>: an utterance event, handled without storage failure, for a
  call that exists and has a conversation, from a caller who is not a teacher, with an
  utterance that asks for escalation, while the completion service answers.
\<close>

definition available_counselor :: "User \<Rightarrow> bool" where
  "available_counselor u = (u_role u = ''counselor'' \<and> u_status u = ''available'')"

definition available_counselors :: "db \<Rightarrow> nat list" where
  "available_counselors d =
     filter (\<lambda>k. available_counselor (users d ! k)) [0..<length (users d)]"

definition answers :: "env \<Rightarrow> bool" where
  "answers ev = (\<forall>m h p. \<exists>t. cohere_chat ev m h p = Inr t)"

definition escalating_turn :: "env \<Rightarrow> form \<Rightarrow> db \<Rightarrow> nat \<Rightarrow> bool" where
  "escalating_turn ev f d i =
     (storage_faults ev = [] \<and> answers ev \<and> \<not> is_terminal f \<and>
      (case SpeechResult f of None \<Rightarrow> False | Some u \<Rightarrow> trim u \<noteq> [] \<and> needs_escalation u) \<and>
      (case findFirst (\<lambda>c. c_twilioCallSid c = CallSid f) (calls d) of
         None \<Rightarrow> False
       | Some (j, c) \<Rightarrow>
           j = i \<and> c_conversation c \<noteq> None \<and>
           (case row_at (users d) (c_userId c) of
              None \<Rightarrow> True
            | Some (k, usr) \<Rightarrow> u_role usr \<noteq> ''teacher'')))"

text \<open>The call \<open>i\<close> assigned to the counselor \<open>k\<close>, and the counselor busy.\<close>

definition assign :: "nat \<Rightarrow> nat \<Rightarrow> db \<Rightarrow> Call list" where
  "assign i k d =
     (calls d)[i := (calls d ! i)\<lparr>c_status := ''counselor_assigned'',
                                  c_assignedCounselorId := Some k\<rparr>]"

definition reserve :: "nat \<Rightarrow> db \<Rightarrow> User list" where
  "reserve k d = (users d)[k := (users d ! k)\<lparr>u_status := ''busy''\<rparr>]"

text \<open>
  A store with one available counselor and no call; the events that open the calls
  \<open>CA1\<close> and \<open>CA2\<close>, and an utterance with a crisis term on each of them. \<open>db_two\<close> is
  the store after the two calls have been opened. In \<open>env_flaky\<close> the twelfth storage
  operation of the request fails: for an escalating utterance on an open call that is the
  update of the counselor's status, the last write of the escalation step.
\<close>

definition db_pool :: db where
  "db_pool =
     \<lparr>users = [\<lparr>u_phone = ''+15550002222'', u_role = ''counselor'', u_status = ''available''\<rparr>],
      calls = [], conversations = [], messages = [], escalations = [], classrooms = [],
      students = [], grades = []\<rparr>"

definition ring :: "string \<Rightarrow> string \<Rightarrow> form" where
  "ring sid phone = \<lparr>SpeechResult = None, CallSid = sid, From = phone,
                     To = ''+15550000000'', CallStatus = Some ''in-progress''\<rparr>"

definition cry :: "string \<Rightarrow> string \<Rightarrow> form" where
  "cry sid phone = \<lparr>SpeechResult = Some ''I want to kill myself'', CallSid = sid, From = phone,
                    To = ''+15550000000'', CallStatus = None\<rparr>"

definition first_ring :: form where "first_ring = ring ''CA1'' ''+15550001111''"

definition second_ring :: form where "second_ring = ring ''CA2'' ''+15550003333''"

definition first_cry :: form where "first_cry = cry ''CA1'' ''+15550001111''"

definition second_cry :: form where "second_cry = cry ''CA2'' ''+15550003333''"

definition db_two :: db where
  "db_two =
     db_pool\<lparr>users := [\<lparr>u_phone = ''+15550002222'', u_role = ''counselor'', u_status = ''available''\<rparr>,
                        \<lparr>u_phone = ''+15550001111'', u_role = ''user'', u_status = ''offline''\<rparr>,
                        \<lparr>u_phone = ''+15550003333'', u_role = ''user'', u_status = ''offline''\<rparr>],
             calls := [\<lparr>c_userId = 1, c_twilioCallSid = ''CA1'', c_status = ''ai_handling'',
                        c_endedAt = None, c_assignedCounselorId = None, c_conversation = Some 0\<rparr>,
                       \<lparr>c_userId = 2, c_twilioCallSid = ''CA2'', c_status = ''ai_handling'',
                        c_endedAt = None, c_assignedCounselorId = None, c_conversation = Some 1\<rparr>],
             conversations := [\<lparr>cv_userId = 1\<rparr>, \<lparr>cv_userId = 2\<rparr>]\<rparr>"

definition env_flaky :: env where
  "env_flaky = env_up\<lparr>storage_faults := replicate 11 False @ [True]\<rparr>"

definition crisis_reply :: AIResponse where
  "crisis_reply = \<lparr>response = ''I hear you.'', needsEscalation = True,
                    escalationReason = ''crisis''\<rparr>"

section \<open>Strings: basic facts\<close>

lemma str_includes_sublist: "str_includes s sub = sublist sub s"
  by (induction s) (auto simp: sublist_Cons_right)

lemma lower_char_idem: "lower_char (lower_char c) = lower_char c"
  by (auto simp: lower_char_def is_upper_def code_of_def)

lemma toLowerCase_idem: "toLowerCase (toLowerCase s) = toLowerCase s"
  by (simp add: toLowerCase_def lower_char_idem)

section \<open>Escalation is decided by the utterance\<close>

lemma classify_source: "(needs_escalation u, escalation_reason u) = classify u"
  by (auto simp: needs_escalation_def escalation_reason_def classify_def matches_def
      crisis_lexicon_def professional_lexicon_def)

lemma classify_lower: "toLowerCase v = toLowerCase u \<Longrightarrow> classify v = classify u"
  by (simp add: classify_def matches_def)

lemma chat_turn_flags:
  assumes "chat_turn ev u cv msgs s = (Inr r, s')"
  shows "(needsEscalation r, escalationReason r) = classify u \<or>
         ((needsEscalation r, escalationReason r) = (False, []) \<and> response r \<in> set fixed_replies)"
  using assms
  unfolding chat_turn_def try_catch_def bnd_def lift_def ret_def throw_def message_create_def
    prisma_def fixed_replies_def
  by (auto simp: classify_source[symmetric] Let_def
      split: sum.splits prod.splits list.splits bool.splits if_splits)

lemma getAIResponse_flags:
  assumes "getAIResponse ev u callId s = (Inr r, s')"
  shows "(needsEscalation r, escalationReason r) = classify u \<or>
         ((needsEscalation r, escalationReason r) = (False, []) \<and> response r \<in> set fixed_replies)"
proof -
  from assms consider
      (err) "r = \<lparr>response = ''Sorry, there was an error.'', needsEscalation = False,
                  escalationReason = []\<rparr>"
    | (chat) cv msgs s1 where "chat_turn ev u cv msgs s1 = (Inr r, s')"
    unfolding getAIResponse_def bnd_def ret_def
    by (auto split: sum.splits prod.splits option.splits)
  then show ?thesis
  proof cases
    case err
    then show ?thesis by (simp add: fixed_replies_def)
  next
    case chat
    then show ?thesis by (rule chat_turn_flags)
  qed
qed

lemma prisma_nofault:
  "faults s = [] \<Longrightarrow>
   prisma op s = (case op (store s) of Inl e \<Rightarrow> (Inl e, s) | Inr (x, d) \<Rightarrow> (Inr x, s\<lparr>store := d\<rparr>))"
  by (cases s) (auto simp: prisma_def split: sum.splits)

lemma getAIResponse_reply:
  assumes "faults s = []"
    and "row_at (calls (store s)) callId = Some (callId, c)"
    and "c_conversation c = Some cv"
    and "cohere_chat ev u (chatHistory (filter (\<lambda>m. m_conversationId m = cv) (messages (store s))))
           (chat_preamble u) = Inr txt"
  shows "\<exists>s'. getAIResponse ev u callId s =
           (Inr \<lparr>response = (if txt = [] then ''I'' @ [CHR 0x27] @ ''m here to listen.'' else txt),
                 needsEscalation = fst (classify u),
                 escalationReason = snd (classify u)\<rparr>, s')"
  using assms
  unfolding getAIResponse_def call_with_messages_def add_user_message_def chat_turn_def
    message_findFirst_def message_create_def
  by (auto simp: prisma_nofault bnd_def ret_def try_catch_def lift_def throw_def Let_def
      classify_source[symmetric] split: sum.splits prod.splits option.splits)

section \<open>The extraction pipeline\<close>

lemma extract_total: "\<exists>r. extractGradesWithOpenAI ev t = Inr r"
  by (simp add: extractGradesWithOpenAI_def split: sum.splits)

lemma pipeline_total: "\<exists>r. extraction_pipeline ev t = Inr r"
  using extract_total[of ev t] by (auto simp: extraction_pipeline_def)

lemma extract_fails:
  assumes "extractor_fails ev t"
  shows "\<exists>line \<in> set clarification_lines.
           extractGradesWithOpenAI ev t = Inr (empty_result\<lparr>assistantReply := Some line\<rparr>)"
  using assms
  by (auto simp: extractor_fails_def extractGradesWithOpenAI_def extract_try_def
      clarification_lines_def empty_result_def Let_def split: sum.splits option.splits)

lemma pipeline_fails:
  assumes "extractor_fails ev t"
  shows "extraction_pipeline ev t = Inr (adapt_parsed (parseGrades t))"
  using extract_fails[OF assms] by (auto simp: extraction_pipeline_def empty_result_def)

lemma teacher_grades_nothing:
  assumes "extraction_pipeline ev t = Inr pr" and "entries pr = []"
  shows "teacher_grades ev t call tid s = (Inr None, s)"
  using assms by (simp add: teacher_grades_def lift_def bnd_def ret_def)

section \<open>Storage calls and the response engine\<close>

lemma prisma_cases:
  assumes "prisma op s = (r, s')"
  obtains (fault) "r = Inl (Error ''storage failure'')" "store s' = store s" "faults s' = tl (faults s)"
        "faults s \<noteq> []"
    | (thrown) e where "op (store s) = Inl e" "r = Inl e" "store s' = store s" "faults s' = tl (faults s)"
    | (ok) x where "op (store s) = Inr (x, store s')" "r = Inr x" "faults s' = tl (faults s)"
  using assms unfolding prisma_def
  by (cases s) (auto split: list.splits bool.splits sum.splits)

lemma prisma_first_ok:
  assumes "\<not> prefix [True] (faults s)" and "op (store s) = Inr (x, d)"
  shows "prisma op s = (Inr x, \<lparr>store = d, faults = tl (faults s)\<rparr>)"
  using assms unfolding prisma_def
  by (cases s) (auto split: list.splits bool.splits sum.splits)

lemma add_user_message_effect:
  assumes "add_user_message cv u s = (r, s')"
  shows "r = Inr () \<and>
         (store s' = store s \<or>
          (findFirst (\<lambda>m. m_conversationId m = cv \<and> m_role m = ''user'' \<and> m_content m = u)
             (messages (store s)) = None \<and>
           store s' = (store s)\<lparr>messages := messages (store s) @
             [\<lparr>m_conversationId = cv, m_role = ''user'', m_content = u\<rparr>]\<rparr>))"
proof -
  obtain r1 s1 where f: "message_findFirst cv ''user'' u s = (r1, s1)" by fastforce
  from f[unfolded message_findFirst_def] show ?thesis
  proof (cases rule: prisma_cases)
    case fault
    with f assms show ?thesis by (simp add: add_user_message_def try_catch_def bnd_def ret_def)
  next
    case (thrown e)
    then show ?thesis by simp
  next
    case (ok x)
    show ?thesis
    proof (cases x)
      case (Some a)
      with ok f assms show ?thesis by (auto simp: add_user_message_def try_catch_def bnd_def ret_def)
    next
      case None
      obtain r2 s2 where c: "message_create cv ''user'' u s1 = (r2, s2)" by fastforce
      from c[unfolded message_create_def] have
        "(\<exists>e. r2 = Inl e \<and> store s2 = store s1) \<or>
         (r2 = Inr () \<and> store s2 = (store s1)\<lparr>messages := messages (store s1) @
             [\<lparr>m_conversationId = cv, m_role = ''user'', m_content = u\<rparr>]\<rparr>)"
        by (cases rule: prisma_cases) auto
      with None ok f c assms show ?thesis
        by (auto simp: add_user_message_def try_catch_def bnd_def ret_def)
    qed
  qed
qed

lemma chat_turn_timeout:
  assumes "cohere_chat ev u (chatHistory msgs) (chat_preamble u) = Inl timeout_error"
  shows "chat_turn ev u cv msgs s = (Inr timeout_reply, s)"
  using assms
  by (simp add: chat_turn_def try_catch_def bnd_def lift_def throw_def ret_def timeout_error_def
      timeout_reply_def)

lemma getAIResponse_timeout:
  assumes t: "cohere_chat ev u (chatHistory (filter (\<lambda>m. m_conversationId m = cv) (messages (store s))))
             (chat_preamble u) = Inl timeout_error"
    and r: "row_at (calls (store s)) callId = Some (callId, c)"
    and c: "c_conversation c = Some cv"
    and f: "\<not> prefix [True] (faults s)"
  shows "fst (getAIResponse ev u callId s) = Inr timeout_reply \<and>
         (store (snd (getAIResponse ev u callId s)) = store s \<or>
          (findFirst (\<lambda>m. m_conversationId m = cv \<and> m_role m = ''user'' \<and> m_content m = u)
             (messages (store s)) = None \<and>
           store (snd (getAIResponse ev u callId s)) =
             (store s)\<lparr>messages := messages (store s) @
                [\<lparr>m_conversationId = cv, m_role = ''user'', m_content = u\<rparr>]\<rparr>))"
proof -
  let ?msgs = "filter (\<lambda>m. m_conversationId m = cv) (messages (store s))"
  let ?s1 = "\<lparr>store = store s, faults = tl (faults s)\<rparr>"
  have 1: "call_with_messages callId s = (Inr (Some (c, Some (cv, ?msgs))), ?s1)"
    unfolding call_with_messages_def using r c by (intro prisma_first_ok[OF f]) simp
  obtain r2 s2 where 2: "add_user_message cv u ?s1 = (r2, s2)" by fastforce
  from add_user_message_effect[OF 2] have 3: "r2 = Inr ()" and
    4: "store s2 = store s \<or>
          (findFirst (\<lambda>m. m_conversationId m = cv \<and> m_role m = ''user'' \<and> m_content m = u)
             (messages (store s)) = None \<and>
           store s2 = (store s)\<lparr>messages := messages (store s) @
             [\<lparr>m_conversationId = cv, m_role = ''user'', m_content = u\<rparr>]\<rparr>)"
    by auto
  have "getAIResponse ev u callId s = (Inr timeout_reply, s2)"
    by (simp add: getAIResponse_def bnd_def 1 2 3 chat_turn_timeout[OF t])
  with 4 show ?thesis by simp
qed

section \<open>The documents of the handler, read as XML\<close>

lemma returns_ret: "P x \<Longrightarrow> returns (ret x) P"
  by (simp add: returns_def ret_def)

lemma returns_bnd: "returns m R \<Longrightarrow> (\<And>x. R x \<Longrightarrow> returns (k x) P) \<Longrightarrow> returns (bnd m k) P"
  unfolding returns_def bnd_def by (fastforce split: sum.splits prod.splits)

lemma returns_bnd_any: "(\<And>x. returns (k x) P) \<Longrightarrow> returns (bnd m k) P"
  unfolding returns_def bnd_def by (fastforce split: sum.splits prod.splits)

lemma returns_try: "returns m P \<Longrightarrow> (\<And>e. returns (h e) P) \<Longrightarrow> returns (try_catch m h) P"
  unfolding returns_def try_catch_def by (fastforce split: sum.splits prod.splits)

lemma voice_constants:
  "voice_document greeting_xml" "voice_document no_counselor_xml"
  "voice_document speech_error_xml" "voice_document empty_speech_xml" "voice_document errorXml"
  by (code_simp+)

lemma tokens_text:
  "CHR ''<'' \<notin> set t \<Longrightarrow> tokens (t @ s) acc False = tokens s (rev t @ acc) False"
  by (induction t arbitrary: acc) auto

lemma escaped_plain: "CHR ''&'' \<notin> set t \<Longrightarrow> escaped t"
  by (induction t) auto

lemmas reader_defs =
  voice_document_def parse_twiml_def xml_header_def nl_def gather_open_def
  xml_declaration_def tag_name_def blank_def xml_space_def instructs_def speaks_def listens_def
  bridges_def spoken_line_def

lemma voice_teacher: "plain t \<Longrightarrow> voice_document (teacher_xml t)"
  by (simp add: teacher_xml_def reader_defs tokens_text escaped_plain plain_def)

lemma voice_dial: "plain t \<Longrightarrow> voice_document (dial_xml t)"
  by (simp add: dial_xml_def reader_defs tokens_text escaped_plain plain_def)

lemma voice_conversation: "plain t \<Longrightarrow> voice_document (conversation_xml t)"
  by (simp add: conversation_xml_def reader_defs tokens_text escaped_plain plain_def)


lemma set_trim: "set (trim s) \<subseteq> set s"
proof
  fix c assume "c \<in> set (trim s)"
  then have "c \<in> set (dropWhile is_space (rev (dropWhile is_space s)))" by (simp add: trim_def)
  then have "c \<in> set (rev (dropWhile is_space s))" by (rule set_dropWhileD)
  then have "c \<in> set (dropWhile is_space s)" by simp
  then show "c \<in> set s" by (rule set_dropWhileD)
qed

lemma trim_last: "trim s \<noteq> [] \<Longrightarrow> \<not> is_space (last (trim s))"
proof -
  assume a: "trim s \<noteq> []"
  let ?r = "dropWhile is_space (rev (dropWhile is_space s))"
  from a have ne: "?r \<noteq> []" by (simp add: trim_def)
  then have "\<not> is_space (hd ?r)" by (rule hd_dropWhile)
  with ne show ?thesis by (simp add: trim_def last_rev)
qed

lemma xml_space_is_space: "xml_space c \<Longrightarrow> is_space c"
  by (auto simp: xml_space_def is_space_def code_of_def)

lemma plain_clean: "clean x \<noteq> [] \<Longrightarrow> plain (clean x)"
proof -
  assume a: "clean x \<noteq> []"
  let ?f = "filter (\<lambda>c. c \<notin> {CHR ''<'', CHR ''>'', CHR ''&'', CHR 0x27, CHR 0x22}) x"
  from a have "\<not> is_space (last (trim ?f))" unfolding clean_def by (rule trim_last)
  moreover from a have "last (clean x) \<in> set (clean x)" by simp
  ultimately have "\<not> blank (clean x)"
    unfolding clean_def blank_def list_all_iff using xml_space_is_space by blast
  moreover have "set (clean x) \<subseteq> set ?f" unfolding clean_def by (rule set_trim)
  ultimately show ?thesis by (auto simp: plain_def)
qed

lemma plain_default: \<open>plain ''I'm here to listen. How are you feeling?''\<close>
  by (simp add: plain_def blank_def xml_space_def)

lemma voice_nonempty: "voice_document doc \<Longrightarrow> doc \<noteq> []"
  by (auto simp: voice_document_def parse_twiml_def)

lemma templates_nonempty: "teacher_xml t \<noteq> []" "dial_xml t \<noteq> []"
  by (simp_all add: teacher_xml_def dial_xml_def xml_header_def)

lemma acceptable_voice: "voice_document doc \<Longrightarrow> acceptable f (xml_response doc)"
  using voice_nonempty[of doc] by (auto simp: acceptable_def xml_response_def)

lemma acceptable_teacher: "acceptable f (xml_response (teacher_xml t))"
proof (cases "plain t")
  case True
  then show ?thesis by (intro acceptable_voice voice_teacher)
next
  case False
  then show ?thesis
    by (auto simp: acceptable_def xml_response_def raw_reply_def templates_nonempty)
qed

lemma acceptable_dial: "acceptable f (xml_response (dial_xml t))"
proof (cases "plain t")
  case True
  then show ?thesis by (intro acceptable_voice voice_dial)
next
  case False
  then show ?thesis
    by (auto simp: acceptable_def xml_response_def raw_reply_def templates_nonempty)
qed

lemma acceptable_conversation:
  "clean x \<noteq> [] \<Longrightarrow> acceptable f (xml_response (conversation_xml (clean x)))"
  \<open>acceptable f (xml_response (conversation_xml ''I'm here to listen. How are you feeling?''))\<close>
  by (auto intro!: acceptable_voice voice_conversation plain_clean plain_default)

lemmas acceptable_docs =
  voice_constants[THEN acceptable_voice] acceptable_teacher acceptable_dial
  acceptable_conversation

lemma returns_escalate: "returns (escalate call ai) (acceptable f)"
  unfolding escalate_def
  by (auto intro!: returns_bnd_any returns_ret acceptable_docs split: option.splits prod.splits)

lemma returns_converse: "returns (converse ev sp call) (acceptable f)"
  unfolding converse_def
  by (auto intro!: returns_bnd_any returns_ret returns_escalate acceptable_docs simp: Let_def)

lemma returns_teacher_grades:
  "returns (teacher_grades ev sp call tid) (\<lambda>reply. \<forall>r. reply = Some r \<longrightarrow> acceptable f r)"
  unfolding teacher_grades_def
  by (auto intro!: returns_bnd_any returns_ret acceptable_docs simp: Let_def)

lemma returns_teacher_turn:
  "returns (teacher_turn ev sp call) (\<lambda>reply. \<forall>r. reply = Some r \<longrightarrow> acceptable f r)"
  unfolding teacher_turn_def
  by (auto intro!: returns_try returns_bnd_any returns_ret returns_teacher_grades
      split: option.splits prod.splits)

lemma returns_speech_turn: "returns (speech_turn ev f sp) (acceptable f)"
  unfolding speech_turn_def
proof (rule returns_try)
  show "returns (ret (xml_response speech_error_xml)) (acceptable f)" for dbError :: jserror
    by (intro returns_ret acceptable_docs)
next
  show "returns
     (bnd (resolve_call ev f) (\<lambda>call0.
        bnd (save_transcription sp call0) (\<lambda>call.
        bnd (teacher_turn ev sp call) (\<lambda>reply.
          case reply of Some r \<Rightarrow> ret r | None \<Rightarrow> converse ev sp call))))
     (acceptable f)"
  proof (intro returns_bnd_any[of _ _ "resolve_call ev f"] returns_bnd_any[of _ _ "save_transcription sp c" for c])
    fix call0 call
    show "returns (bnd (teacher_turn ev sp call)
            (\<lambda>reply. case reply of Some r \<Rightarrow> ret r | None \<Rightarrow> converse ev sp call)) (acceptable f)"
      by (rule returns_bnd[OF returns_teacher_turn[of ev sp call f]])
         (auto intro!: returns_ret returns_converse split: option.splits)
  qed
qed

lemma returns_handle: "returns (handle ev f) (acceptable f)"
  unfolding handle_def status_update_def
  by (auto intro!: returns_bnd_any returns_ret returns_speech_turn acceptable_docs
      simp: acceptable_def empty_response_def)

lemma POST_acceptable: "acceptable f (fst (POST ev f d))"
proof (cases "handle ev f \<lparr>store = d, faults = storage_faults ev\<rparr>")
  case (Pair r s)
  show ?thesis
  proof (cases r)
    case (Inl e)
    with Pair show ?thesis by (simp add: POST_def acceptable_docs)
  next
    case (Inr x)
    with Pair returns_handle[of ev f] show ?thesis by (auto simp: POST_def returns_def)
  qed
qed

section \<open>Rules for computations on the store\<close>

lemma triple_ret: "(\<And>d. P d \<Longrightarrow> Q x d) \<Longrightarrow> triple nf P (ret x) Q E"
  by (simp add: triple_def ret_def)

lemma triple_throw: "(\<And>d. P d \<Longrightarrow> E d) \<Longrightarrow> triple nf P (throw e) Q E"
  by (simp add: triple_def throw_def)

lemma triple_bnd:
  assumes "triple nf P m R E" and "\<And>x. triple nf (R x) (k x) Q E"
  shows "triple nf P (bnd m k) Q E"
  unfolding triple_def bnd_def
proof (intro allI impI)
  fix s :: state assume p: "P (store s) \<and> (nf \<longrightarrow> faults s = [])"
  obtain r s1 where m: "m s = (r, s1)" by fastforce
  show "case case m s of (Inl e, s') \<Rightarrow> (Inl e, s') | (Inr x, s') \<Rightarrow> k x s' of
          (Inl e, s') \<Rightarrow> E (store s') \<and> (nf \<longrightarrow> faults s' = [])
        | (Inr x, s') \<Rightarrow> Q x (store s') \<and> (nf \<longrightarrow> faults s' = [])"
  proof (cases r)
    case (Inl e)
    with assms(1) p m show ?thesis by (auto simp: triple_def)
  next
    case (Inr x)
    with assms(1) p m have "R x (store s1) \<and> (nf \<longrightarrow> faults s1 = [])" by (auto simp: triple_def)
    with assms(2)[of x] Inr m show ?thesis by (auto simp: triple_def split: prod.splits sum.splits)
  qed
qed

lemma triple_try:
  assumes "triple nf P m Q R" and "\<And>e. triple nf R (h e) Q E"
  shows "triple nf P (try_catch m h) Q E"
  unfolding triple_def try_catch_def
proof (intro allI impI)
  fix s :: state assume p: "P (store s) \<and> (nf \<longrightarrow> faults s = [])"
  obtain r s1 where m: "m s = (r, s1)" by fastforce
  show "case case m s of (Inl e, s') \<Rightarrow> h e s' | (Inr x, s') \<Rightarrow> (Inr x, s') of
          (Inl e, s') \<Rightarrow> E (store s') \<and> (nf \<longrightarrow> faults s' = [])
        | (Inr x, s') \<Rightarrow> Q x (store s') \<and> (nf \<longrightarrow> faults s' = [])"
  proof (cases r)
    case (Inr x)
    with assms(1) p m show ?thesis by (auto simp: triple_def)
  next
    case (Inl e)
    with assms(1) p m have "R (store s1) \<and> (nf \<longrightarrow> faults s1 = [])" by (auto simp: triple_def)
    with assms(2)[of e] Inl m show ?thesis by (auto simp: triple_def split: prod.splits sum.splits)
  qed
qed

lemma triple_weaken:
  assumes "triple nf P' m Q' E'"
    and "\<And>d. P d \<Longrightarrow> P' d" and "\<And>x d. Q' x d \<Longrightarrow> Q x d" and "\<And>d. E' d \<Longrightarrow> E d"
  shows "triple nf P m Q E"
  using assms unfolding triple_def by (fastforce split: prod.splits sum.splits)

lemma triple_pre: "triple nf P' m Q E \<Longrightarrow> (\<And>d. P d \<Longrightarrow> P' d) \<Longrightarrow> triple nf P m Q E"
  by (erule triple_weaken) auto

lemma triple_assume: "(C \<Longrightarrow> triple nf P m Q E) \<Longrightarrow> triple nf (\<lambda>d. C \<and> P d) m Q E"
  unfolding triple_def by auto

lemma triple_prisma:
  assumes "\<And>d. P d \<Longrightarrow> (\<not> nf \<longrightarrow> E d) \<and> (case op d of Inl e \<Rightarrow> E d | Inr (x, d') \<Rightarrow> Q x d')"
  shows "triple nf P (prisma op) Q E"
  unfolding triple_def
proof (intro allI impI)
  fix s :: state assume p: "P (store s) \<and> (nf \<longrightarrow> faults s = [])"
  obtain r s1 where m: "prisma op s = (r, s1)" by fastforce
  from m have "case (r, s1) of
          (Inl e, s') \<Rightarrow> E (store s') \<and> (nf \<longrightarrow> faults s' = [])
        | (Inr x, s') \<Rightarrow> Q x (store s') \<and> (nf \<longrightarrow> faults s' = [])"
    using assms[of "store s"] p by (cases rule: prisma_cases) auto
  with m show "case prisma op s of
          (Inl e, s') \<Rightarrow> E (store s') \<and> (nf \<longrightarrow> faults s' = [])
        | (Inr x, s') \<Rightarrow> Q x (store s') \<and> (nf \<longrightarrow> faults s' = [])"
    by simp
qed

lemma triple_lift:
  "(\<And>d x. P d \<Longrightarrow> r = Inr x \<Longrightarrow> Q x d) \<Longrightarrow> (\<And>d e. P d \<Longrightarrow> r = Inl e \<Longrightarrow> E d) \<Longrightarrow>
   triple nf P (lift r) Q E"
  by (cases r) (auto simp: lift_def intro: triple_ret triple_throw)

lemma keeps_ret: "keeps nf J (ret x)"
  unfolding keeps_def by (rule triple_ret)

lemma keeps_throw: "keeps nf J (throw e)"
  unfolding keeps_def by (rule triple_throw)

lemma keeps_lift: "keeps nf J (lift r)"
  unfolding keeps_def by (rule triple_lift)

lemma keeps_bnd: "keeps nf J m \<Longrightarrow> (\<And>x. keeps nf J (k x)) \<Longrightarrow> keeps nf J (bnd m k)"
  unfolding keeps_def by (rule triple_bnd)

lemma keeps_try: "keeps nf J m \<Longrightarrow> (\<And>e. keeps nf J (h e)) \<Longrightarrow> keeps nf J (try_catch m h)"
  unfolding keeps_def by (rule triple_try)

lemma keeps_prisma:
  "(\<And>d x d'. J d \<Longrightarrow> op d = Inr (x, d') \<Longrightarrow> J d') \<Longrightarrow> keeps nf J (prisma op)"
  unfolding keeps_def by (rule triple_prisma) (auto split: sum.splits)

lemma keepsD:
  assumes "keeps nf J m" and "J (store s)" and "nf \<longrightarrow> faults s = []"
  shows "J (store (snd (m s)))"
  using assms unfolding keeps_def triple_def by (fastforce split: prod.splits sum.splits)

lemma find_from_None: "find_from P xs i = None \<longleftrightarrow> (\<forall>x \<in> set xs. \<not> P x)"
  by (induction xs arbitrary: i) auto

lemma find_from_Some:
  "find_from P xs i = Some (j, x) \<Longrightarrow> i \<le> j \<and> j - i < length xs \<and> xs ! (j - i) = x \<and> P x"
proof (induction xs arbitrary: i)
  case Nil
  then show ?case by simp
next
  case (Cons a xs)
  show ?case
  proof (cases "P a")
    case True
    with Cons.prems show ?thesis by simp
  next
    case False
    with Cons.prems have "find_from P xs (Suc i) = Some (j, x)" by simp
    from Cons.IH[OF this] show ?thesis by (auto simp: Suc_diff_le)
  qed
qed

lemma findFirst_None: "findFirst P xs = None \<longleftrightarrow> (\<forall>x \<in> set xs. \<not> P x)"
  by (simp add: findFirst_def find_from_None)

lemma findFirst_Some: "findFirst P xs = Some (j, x) \<Longrightarrow> j < length xs \<and> xs ! j = x \<and> P x"
  using find_from_Some[of P xs 0 j x] by (simp add: findFirst_def)




section \<open>User messages are stored once\<close>

























lemma store_POST: "snd (POST ev f d) = store (snd (handle ev f \<lparr>store = d, faults = storage_faults ev\<rparr>))"
  by (simp add: POST_def split: prod.splits sum.splits)




section \<open>Invariants of the handler\<close>

lemma keeps_reads:
  "keeps nf J (call_findUnique_sid sid)"
  "keeps nf J (call_findUnique_id i)"
  "keeps nf J (user_findUnique i)"
  "keeps nf J (user_findFirst P)"
  "keeps nf J (classroom_findFirst nm tid)"
  "keeps nf J (student_findFirst nm cls)"
  "keeps nf J (call_with_messages i)"
  "keeps nf J (message_findFirst cv r t)"
  unfolding call_findUnique_sid_def call_findUnique_id_def user_findUnique_def user_findFirst_def
    classroom_findFirst_def student_findFirst_def call_with_messages_def message_findFirst_def
  by (rule keeps_prisma; auto)+

lemmas keeps_base = keeps_bnd keeps_try keeps_ret keeps_lift keeps_throw keeps_reads

lemma writes_keepD:
  assumes "writes_keep nf J"
  shows "keeps nf J (call_create \<lparr>c_userId = uid, c_twilioCallSid = sid, c_status = ''ai_handling'',
                        c_endedAt = None, c_assignedCounselorId = None,
                        c_conversation = Some cw\<rparr>)"
    "keeps nf J (call_update i (\<lambda>r. r\<lparr>c_conversation := Some cv\<rparr>))"
    "keeps nf J (user_upsert dflt phone)"
    "keeps nf J (conversation_create uid)"
    "keeps nf J (user_message_once cv t)"
    "keeps nf J (message_create cv ''assistant'' t)"
    "keeps nf J (classroom_create nm tid)"
    "keeps nf J (student_create nm cls)"
    "keeps nf J (grade_create g)"
  using assms by (simp_all add: writes_keep_def)

lemma keeps_create_session: "writes_keep nf J \<Longrightarrow> keeps nf J (create_session ev f)"
  unfolding create_session_def by (intro keeps_base writes_keepD)

lemma keeps_connect_call: "writes_keep nf J \<Longrightarrow> keeps nf J (connect_call ev f)"
  unfolding connect_call_def
  by (auto intro!: keeps_base keeps_create_session split: option.splits)

lemma keeps_resolve_call: "writes_keep nf J \<Longrightarrow> keeps nf J (resolve_call ev f)"
  unfolding resolve_call_def
  by (auto intro!: keeps_base keeps_create_session split: option.splits)

lemma keeps_ensure_conversation: "writes_keep nf J \<Longrightarrow> keeps nf J (ensure_conversation call)"
  unfolding ensure_conversation_def by (auto intro!: keeps_base writes_keepD)

lemma persist_transcript_once:
  "persist_transcript t call =
     (case c_conversation (snd call) of None \<Rightarrow> ret () | Some cv \<Rightarrow> user_message_once cv t)"
  by (simp add: persist_transcript_def user_message_once_def split: option.splits)

lemma keeps_persist_transcript: "writes_keep nf J \<Longrightarrow> keeps nf J (persist_transcript t call)"
  unfolding persist_transcript_once
  by (auto intro!: keeps_base writes_keepD split: option.splits)

lemma keeps_save_transcription: "writes_keep nf J \<Longrightarrow> keeps nf J (save_transcription t call)"
  unfolding save_transcription_def
  by (intro keeps_base keeps_ensure_conversation keeps_persist_transcript)

lemma keeps_ensure_classroom: "writes_keep nf J \<Longrightarrow> keeps nf J (ensure_classroom cn tid)"
  unfolding ensure_classroom_def
  by (auto intro!: keeps_base writes_keepD split: option.splits prod.splits)

lemma keeps_save_entries: "writes_keep nf J \<Longrightarrow> keeps nf J (save_entries cls es n)"
  by (induction cls es n rule: save_entries.induct)
     (auto intro!: keeps_base writes_keepD split: option.splits prod.splits simp: Let_def)

lemma keeps_save_confirmation: "writes_keep nf J \<Longrightarrow> keeps nf J (save_confirmation call t)"
  unfolding save_confirmation_def
  by (auto intro!: keeps_base writes_keepD split: option.splits)

lemma keeps_teacher_grades: "writes_keep nf J \<Longrightarrow> keeps nf J (teacher_grades ev t call tid)"
  unfolding teacher_grades_def
  by (auto intro!: keeps_base keeps_ensure_classroom keeps_save_entries
      keeps_save_confirmation simp: Let_def)

lemma keeps_teacher_turn: "writes_keep nf J \<Longrightarrow> keeps nf J (teacher_turn ev t call)"
  unfolding teacher_turn_def
  by (auto intro!: keeps_base keeps_teacher_grades split: option.splits prod.splits)

lemma keeps_summary: "keeps nf J (generateConversationSummary i)"
  unfolding generateConversationSummary_def
  by (auto intro!: keeps_base split: option.splits prod.splits simp: Let_def)

lemma add_user_message_once:
  "add_user_message cv t = try_catch (user_message_once cv t) (\<lambda>e. ret ())"
  by (simp add: add_user_message_def user_message_once_def)

lemma keeps_add_user_message: "writes_keep nf J \<Longrightarrow> keeps nf J (add_user_message cv t)"
  unfolding add_user_message_once by (intro keeps_base writes_keepD)

lemma keeps_chat_turn: "writes_keep nf J \<Longrightarrow> keeps nf J (chat_turn ev t cv msgs)"
  unfolding chat_turn_def
  by (auto intro!: keeps_base writes_keepD simp: Let_def)

lemma keeps_getAIResponse: "writes_keep nf J \<Longrightarrow> keeps nf J (getAIResponse ev t i)"
  unfolding getAIResponse_def
  by (auto intro!: keeps_base keeps_add_user_message keeps_chat_turn
      split: option.splits prod.splits)

lemma keeps_converse:
  assumes "writes_keep nf J" and "\<And>ai. keeps nf J (escalate call ai)"
  shows "keeps nf J (converse ev t call)"
  unfolding converse_def
  by (auto intro!: keeps_base keeps_getAIResponse assms simp: Let_def)

lemma keeps_speech_turn:
  assumes "writes_keep nf J" and "\<And>call ai. keeps nf J (escalate call ai)"
  shows "keeps nf J (speech_turn ev f t)"
  unfolding speech_turn_def
  by (auto intro!: keeps_base keeps_resolve_call keeps_save_transcription
      keeps_teacher_turn keeps_converse assms split: option.splits)

lemma keeps_handle:
  assumes "writes_keep nf J" and "\<And>call ai. keeps nf J (escalate call ai)"
    and "keeps nf J (status_update ev f)"
  shows "keeps nf J (handle ev f)"
  unfolding handle_def
  by (auto intro!: keeps_base keeps_connect_call keeps_speech_turn assms)

lemma keeps_POST:
  assumes "writes_keep nf J" and "\<And>call ai. keeps nf J (escalate call ai)"
    and "keeps nf J (status_update ev f)"
    and "J d" and "nf \<longrightarrow> storage_faults ev = []"
  shows "J (snd (POST ev f d))"
  unfolding store_POST
  by (rule keepsD[OF keeps_handle[OF assms(1,2,3)]]) (simp_all add: assms)

section \<open>A completed call\<close>

lemma returns_prisma:
  assumes "\<And>d x d'. op d = Inr (x, d') \<Longrightarrow> P x"
  shows "returns (prisma op) P"
  unfolding returns_def
proof (intro allI impI)
  fix s x s' assume m: "prisma op s = (Inr x, s')"
  from m show "P x" by (cases rule: prisma_cases) (auto dest: assms)
qed

lemma triple_keeps_returns:
  assumes k: "keeps nf J m" and r: "returns m P"
  shows "triple nf J m (\<lambda>x d. J d \<and> P x) J"
  unfolding triple_def
proof (intro allI impI)
  fix s :: state assume p: "J (store s) \<and> (nf \<longrightarrow> faults s = [])"
  obtain res s1 where m: "m s = (res, s1)" by fastforce
  from k p m have 1: "J (store s1) \<and> (nf \<longrightarrow> faults s1 = [])"
    unfolding keeps_def triple_def by (cases res) (auto split: prod.splits sum.splits)
  show "case m s of
          (Inl e, s') \<Rightarrow> J (store s') \<and> (nf \<longrightarrow> faults s' = [])
        | (Inr x, s') \<Rightarrow> (J (store s') \<and> P x) \<and> (nf \<longrightarrow> faults s' = [])"
  proof (cases res)
    case (Inl e)
    with m 1 show ?thesis by simp
  next
    case (Inr x)
    with r m have "P x" by (auto simp: returns_def)
    with Inr m 1 show ?thesis by simp
  qed
qed

lemmas write_prim_defs =
  user_upsert_def user_update_def conversation_create_def message_create_def
  escalation_create_def classroom_create_def student_create_def grade_create_def

lemma done_prims:
  "keeps nf (done_inv i0 sid0) (user_upsert dflt phone)"
  "keeps nf (done_inv i0 sid0) (user_update i h)"
  "keeps nf (done_inv i0 sid0) (conversation_create uid)"
  "keeps nf (done_inv i0 sid0) (message_create cv r t)"
  "keeps nf (done_inv i0 sid0) (escalation_create e)"
  "keeps nf (done_inv i0 sid0) (classroom_create nm tid)"
  "keeps nf (done_inv i0 sid0) (student_create nm cls)"
  "keeps nf (done_inv i0 sid0) (grade_create gr)"
  unfolding write_prim_defs
  by (rule keeps_prisma; auto split: if_splits option.splits simp: Let_def done_inv_def)+

lemma done_call_create: "keeps nf (done_inv i0 sid0) (call_create c)"
  unfolding call_create_def
  by (rule keeps_prisma) (auto simp: done_inv_def nth_append split: if_splits)

lemma done_call_update:
  assumes "\<And>c. c_twilioCallSid (g c) = c_twilioCallSid c"
    and "\<And>c. i = i0 \<Longrightarrow> c_status c = ''completed'' \<Longrightarrow> c_status (g c) = ''completed''"
  shows "keeps nf (done_inv i0 sid0) (call_update i g)"
  unfolding call_update_def
  by (rule keeps_prisma) (auto simp: done_inv_def nth_list_update assms split: if_splits)

lemma done_writes: "writes_keep nf (done_inv i0 sid0)"
  unfolding writes_keep_def user_message_once_def
  by (auto intro!: keeps_bnd keeps_ret keeps_reads done_prims done_call_create done_call_update)

lemma done_status_update: "keeps nf (done_inv i0 sid0) (status_update ev f)"
  unfolding status_update_def
  by (auto intro!: keeps_bnd keeps_ret keeps_reads done_prims done_call_update
      split: option.splits prod.splits)

lemma done_escalate_other:
  "fst call \<noteq> i0 \<Longrightarrow> keeps nf (done_inv i0 sid0) (escalate call ai)"
  unfolding escalate_def findAvailableCounselor_def
  by (auto intro!: keeps_bnd keeps_ret keeps_reads keeps_summary done_prims done_call_update
      split: option.splits prod.splits)

lemma doa_prims:
  "keeps nf (done_or_assigned i0 sid0) (user_upsert dflt phone)"
  "keeps nf (done_or_assigned i0 sid0) (user_update i h)"
  "keeps nf (done_or_assigned i0 sid0) (conversation_create uid)"
  "keeps nf (done_or_assigned i0 sid0) (message_create cv r t)"
  "keeps nf (done_or_assigned i0 sid0) (escalation_create e)"
  "keeps nf (done_or_assigned i0 sid0) (classroom_create nm tid)"
  "keeps nf (done_or_assigned i0 sid0) (student_create nm cls)"
  "keeps nf (done_or_assigned i0 sid0) (grade_create gr)"
  unfolding write_prim_defs
  by (rule keeps_prisma; auto split: if_splits option.splits simp: Let_def done_or_assigned_def)+

lemma doa_call_create: "keeps nf (done_or_assigned i0 sid0) (call_create c)"
  unfolding call_create_def
  by (rule keeps_prisma) (auto simp: done_or_assigned_def nth_append split: if_splits)

lemma doa_call_update:
  assumes "\<And>c. c_twilioCallSid (g c) = c_twilioCallSid c"
    and "\<And>c. c_status (g c) = c_status c \<or> c_status (g c) = ''completed'' \<or>
              c_status (g c) = ''counselor_assigned''"
  shows "keeps nf (done_or_assigned i0 sid0) (call_update i g)"
  unfolding call_update_def
proof (rule keeps_prisma)
  fix d x d'
  assume j: "done_or_assigned i0 sid0 d"
    and u: "(if i < length (calls d)
             then Inr ((i, g (calls d ! i)), d\<lparr>calls := (calls d)[i := g (calls d ! i)]\<rparr>)
             else Inl (Error ''Record to update not found'')) = Inr (x, d')"
  then have d': "d' = d\<lparr>calls := (calls d)[i := g (calls d ! i)]\<rparr>" and i: "i < length (calls d)"
    by (auto split: if_splits)
  show "done_or_assigned i0 sid0 d'"
  proof (cases "i = i0")
    case False
    with j d' show ?thesis by (simp add: done_or_assigned_def)
  next
    case True
    from j have l: "i0 < length (calls d)" and s: "c_twilioCallSid (calls d ! i0) = sid0"
      and st: "c_status (calls d ! i0) = ''completed'' \<or> c_status (calls d ! i0) = ''counselor_assigned''"
      by (simp_all add: done_or_assigned_def)
    from d' True l have n: "calls d' ! i0 = g (calls d ! i0)" and l': "i0 < length (calls d')"
      by simp_all
    from assms(2)[of "calls d ! i0"] st
    have "c_status (g (calls d ! i0)) = ''completed'' \<or>
          c_status (g (calls d ! i0)) = ''counselor_assigned''"
      by metis
    with n l' s assms(1)[of "calls d ! i0"] show ?thesis
      by (simp add: done_or_assigned_def)
  qed
qed

lemma doa_writes: "writes_keep nf (done_or_assigned i0 sid0)"
  unfolding writes_keep_def user_message_once_def
  by (auto intro!: keeps_bnd keeps_ret keeps_reads doa_prims doa_call_create doa_call_update)

lemma doa_status_update: "keeps nf (done_or_assigned i0 sid0) (status_update ev f)"
  unfolding status_update_def
  by (auto intro!: keeps_bnd keeps_ret keeps_reads doa_prims doa_call_update
      split: option.splits prod.splits)

lemma doa_escalate: "keeps nf (done_or_assigned i0 sid0) (escalate call ai)"
  unfolding escalate_def findAvailableCounselor_def
  by (auto intro!: keeps_bnd keeps_ret keeps_reads keeps_summary doa_prims doa_call_update
      split: option.splits prod.splits)

lemma returns_call_update: "returns (call_update i g) (\<lambda>c. fst c = i)"
  unfolding call_update_def by (rule returns_prisma) (auto split: if_splits)

lemma returns_ensure_conversation: "returns (ensure_conversation call) (\<lambda>c. fst c = fst call)"
  unfolding ensure_conversation_def
  by (auto intro!: returns_bnd_any returns_ret returns_call_update)

lemma returns_save_transcription: "returns (save_transcription t call) (\<lambda>c. fst c = fst call)"
  unfolding save_transcription_def
proof (rule returns_try)
  show "returns (ret call) (\<lambda>c. fst c = fst call)" for msgErr :: jserror
    by (rule returns_ret) simp
next
  show "returns
     (bnd (ensure_conversation call) (\<lambda>call'.
        try_catch (bnd (persist_transcript t call') (\<lambda>u. ret call')) (\<lambda>msgErr. ret call')))
     (\<lambda>c. fst c = fst call)"
    by (rule returns_bnd[OF returns_ensure_conversation])
       (auto intro!: returns_try returns_bnd_any returns_ret)
qed

lemma returns_flags:
  "returns (getAIResponse ev u i) (\<lambda>ai. needsEscalation ai \<longrightarrow> needs_escalation u)"
  unfolding returns_def
proof (intro allI impI)
  fix s x s' assume "getAIResponse ev u i s = (Inr x, s')" and n: "needsEscalation x"
  from getAIResponse_flags[OF this(1)] n have "fst (classify u)" by (metis fst_conv)
  then show "needs_escalation u" by (simp add: classify_source[symmetric])
qed

lemma done_resolve_call:
  "triple nf (done_inv i0 sid0) (resolve_call ev f)
     (\<lambda>call d. done_inv i0 sid0 d \<and> (sid0 \<noteq> CallSid f \<longrightarrow> fst call \<noteq> i0)) (done_inv i0 sid0)"
  unfolding resolve_call_def
proof (rule triple_bnd[where R = "\<lambda>call d. done_inv i0 sid0 d \<and>
         (\<forall>c. call = Some c \<longrightarrow> sid0 \<noteq> CallSid f \<longrightarrow> fst c \<noteq> i0)"])
  show "triple nf (done_inv i0 sid0) (call_findUnique_sid (CallSid f))
     (\<lambda>call d. done_inv i0 sid0 d \<and> (\<forall>c. call = Some c \<longrightarrow> sid0 \<noteq> CallSid f \<longrightarrow> fst c \<noteq> i0))
     (done_inv i0 sid0)"
    unfolding call_findUnique_sid_def
    by (rule triple_prisma) (auto simp: done_inv_def dest!: findFirst_Some)
next
  fix call
  show "triple nf (\<lambda>d. done_inv i0 sid0 d \<and> (\<forall>c. call = Some c \<longrightarrow> sid0 \<noteq> CallSid f \<longrightarrow> fst c \<noteq> i0))
          (case call of None \<Rightarrow> create_session ev f | Some c \<Rightarrow> ret c)
          (\<lambda>call d. done_inv i0 sid0 d \<and> (sid0 \<noteq> CallSid f \<longrightarrow> fst call \<noteq> i0)) (done_inv i0 sid0)"
  proof (cases call)
    case (Some c)
    then show ?thesis by (auto intro!: triple_ret)
  next
    case None
    have "triple nf (done_inv i0 sid0) (create_session ev f)
          (\<lambda>call d. done_inv i0 sid0 d \<and> (sid0 \<noteq> CallSid f \<longrightarrow> fst call \<noteq> i0)) (done_inv i0 sid0)"
      unfolding create_session_def
      apply (rule triple_bnd[where R = "\<lambda>x. done_inv i0 sid0"])
       apply (rule done_prims(1)[unfolded keeps_def])
      apply (rule triple_bnd[where R = "\<lambda>x. done_inv i0 sid0"])
       apply (rule done_prims(3)[unfolded keeps_def])
      unfolding call_create_def
      apply (rule triple_prisma)
      apply (auto simp: done_inv_def nth_append split: if_splits)
      done
    with None show ?thesis by (auto elim: triple_pre)
  qed
qed

lemma done_converse:
  assumes c: "sid0 \<noteq> CallSid f \<longrightarrow> fst call \<noteq> i0"
    and g: "sid0 \<noteq> CallSid f \<or> \<not> needs_escalation u"
  shows "keeps nf (done_inv i0 sid0) (converse ev u call)"
  unfolding converse_def keeps_def
proof (rule triple_bnd[where R = "\<lambda>ai d. done_inv i0 sid0 d \<and>
          (needsEscalation ai \<longrightarrow> needs_escalation u)"])
  show "triple nf (done_inv i0 sid0) (getAIResponse ev u (fst call))
     (\<lambda>ai d. done_inv i0 sid0 d \<and> (needsEscalation ai \<longrightarrow> needs_escalation u)) (done_inv i0 sid0)"
    by (rule triple_keeps_returns[OF keeps_getAIResponse[OF done_writes] returns_flags])
next
  fix ai
  let ?rest = \<open>if needsEscalation ai then escalate call ai
          else let cleanResponse =
                     if clean (response ai) = [] then ''I'm here to listen. How are you feeling?''
                     else clean (response ai)
               in ret (xml_response (conversation_xml cleanResponse))\<close>
  have "triple nf (\<lambda>d. (needsEscalation ai \<longrightarrow> needs_escalation u) \<and> done_inv i0 sid0 d) ?rest
          (\<lambda>x. done_inv i0 sid0) (done_inv i0 sid0)"
  proof (rule triple_assume)
    assume n: "needsEscalation ai \<longrightarrow> needs_escalation u"
    show "triple nf (done_inv i0 sid0) ?rest (\<lambda>x. done_inv i0 sid0) (done_inv i0 sid0)"
    proof (cases "needsEscalation ai")
      case True
      with n g c have "fst call \<noteq> i0" by auto
      from done_escalate_other[OF this] True show ?thesis by (simp add: keeps_def)
    next
      case False
      then show ?thesis by (auto simp: Let_def intro!: triple_ret)
    qed
  qed
  then show "triple nf (\<lambda>d. done_inv i0 sid0 d \<and> (needsEscalation ai \<longrightarrow> needs_escalation u)) ?rest
          (\<lambda>x. done_inv i0 sid0) (done_inv i0 sid0)"
    by (rule triple_pre) simp
qed

lemma done_speech_turn:
  assumes g: "sid0 \<noteq> CallSid f \<or> \<not> needs_escalation u"
  shows "keeps nf (done_inv i0 sid0) (speech_turn ev f u)"
  unfolding speech_turn_def
proof (rule keeps_try)
  show "keeps nf (done_inv i0 sid0) (ret (xml_response speech_error_xml))" for dbError :: jserror
    by (rule keeps_ret)
next
  let ?J = "done_inv i0 sid0"
  let ?C = "\<lambda>call :: nat \<times> Call. sid0 \<noteq> CallSid f \<longrightarrow> fst call \<noteq> i0"
  have tail: "triple nf (\<lambda>d. ?C call \<and> ?J d)
        (bnd (teacher_turn ev u call) (\<lambda>reply.
           case reply of None \<Rightarrow> converse ev u call | Some r \<Rightarrow> ret r))
        (\<lambda>x. ?J) ?J" for call
  proof (rule triple_assume)
    assume c: "?C call"
    have "keeps nf ?J (bnd (teacher_turn ev u call) (\<lambda>reply.
           case reply of None \<Rightarrow> converse ev u call | Some r \<Rightarrow> ret r))"
      by (auto intro!: keeps_bnd keeps_ret keeps_teacher_turn[OF done_writes]
          done_converse[OF c g] split: option.splits)
    then show "triple nf ?J (bnd (teacher_turn ev u call) (\<lambda>reply.
           case reply of None \<Rightarrow> converse ev u call | Some r \<Rightarrow> ret r)) (\<lambda>x. ?J) ?J"
      by (simp add: keeps_def)
  qed
  have mid: "triple nf (\<lambda>d. ?C call0 \<and> ?J d)
        (bnd (save_transcription u call0) (\<lambda>call.
         bnd (teacher_turn ev u call) (\<lambda>reply.
           case reply of None \<Rightarrow> converse ev u call | Some r \<Rightarrow> ret r)))
        (\<lambda>x. ?J) ?J" for call0
  proof (rule triple_assume)
    assume c0: "?C call0"
    show "triple nf ?J
        (bnd (save_transcription u call0) (\<lambda>call.
         bnd (teacher_turn ev u call) (\<lambda>reply.
           case reply of None \<Rightarrow> converse ev u call | Some r \<Rightarrow> ret r)))
        (\<lambda>x. ?J) ?J"
    proof (rule triple_bnd[where R = "\<lambda>call d. ?J d \<and> fst call = fst call0"])
      show "triple nf ?J (save_transcription u call0) (\<lambda>call d. ?J d \<and> fst call = fst call0) ?J"
        by (rule triple_keeps_returns[OF keeps_save_transcription[OF done_writes]
              returns_save_transcription])
    next
      fix call
      show "triple nf (\<lambda>d. ?J d \<and> fst call = fst call0)
         (bnd (teacher_turn ev u call) (\<lambda>reply.
           case reply of None \<Rightarrow> converse ev u call | Some r \<Rightarrow> ret r))
         (\<lambda>x. ?J) ?J"
        by (rule triple_pre[OF tail[of call]]) (use c0 in auto)
    qed
  qed
  show "keeps nf ?J
     (bnd (resolve_call ev f) (\<lambda>call0.
        bnd (save_transcription u call0) (\<lambda>call.
        bnd (teacher_turn ev u call) (\<lambda>reply.
          case reply of None \<Rightarrow> converse ev u call | Some r \<Rightarrow> ret r))))"
    unfolding keeps_def
  proof (rule triple_bnd[OF done_resolve_call])
    fix call0
    show "triple nf (\<lambda>d. ?J d \<and> ?C call0)
        (bnd (save_transcription u call0) (\<lambda>call.
         bnd (teacher_turn ev u call) (\<lambda>reply.
           case reply of None \<Rightarrow> converse ev u call | Some r \<Rightarrow> ret r)))
        (\<lambda>x. ?J) ?J"
      by (rule triple_pre[OF mid[of call0]]) auto
  qed
qed

lemma done_handle:
  assumes "\<not> escalating_for sid0 f"
  shows "keeps nf (done_inv i0 sid0) (handle ev f)"
proof (cases "is_terminal f")
  case True
  then show ?thesis by (simp add: handle_def done_status_update)
next
  case False
  have "keeps nf (done_inv i0 sid0) (speech_turn ev f (the (SpeechResult f)))"
    if "truthy (SpeechResult f)"
  proof (rule done_speech_turn)
    from that obtain u where "SpeechResult f = Some u" by (auto simp: truthy_def split: option.splits)
    with assms False show "sid0 \<noteq> CallSid f \<or> \<not> needs_escalation (the (SpeechResult f))"
      by (auto simp: escalating_for_def)
  qed
  with False show ?thesis
    unfolding handle_def
    by (auto intro!: keeps_bnd keeps_ret keeps_connect_call[OF done_writes])
qed

lemma done_POST:
  assumes "done_inv i sid d" and "\<not> escalating_for sid f"
  shows "done_inv i sid (snd (POST ev f d))"
  unfolding store_POST
  by (rule keepsD[OF done_handle[of sid f False]]) (simp_all add: assms)

lemma doa_POST:
  assumes "done_inv i sid d"
  shows "done_or_assigned i sid (snd (POST ev f d))"
proof (rule keeps_POST[of False, OF doa_writes doa_escalate doa_status_update])
  from assms show "done_or_assigned i sid d" by (simp add: done_inv_def done_or_assigned_def)
qed simp

lemma done_run:
  assumes "done_inv i sid d" and "\<forall>(ev, f) \<in> set evs. \<not> escalating_for sid f"
  shows "done_inv i sid (run evs d)"
  using assms
proof (induction evs arbitrary: d)
  case Nil
  then show ?case by simp
next
  case (Cons e evs)
  obtain ev f where e: "e = (ev, f)" by (cases e)
  with Cons.prems have "done_inv i sid (snd (POST ev f d))" by (auto intro: done_POST)
  with Cons.IH[of "snd (POST ev f d)"] Cons.prems e show ?case by simp
qed

section \<open>The status update\<close>

lemma find_from_update:
  assumes "find_from P xs n = Some (j, x)" and "P y"
  shows "find_from P (xs[j - n := y]) n = Some (j, y)"
  using assms
proof (induction xs arbitrary: n)
  case Nil
  then show ?case by simp
next
  case (Cons a xs)
  show ?case
  proof (cases "P a")
    case True
    with Cons.prems show ?thesis by simp
  next
    case False
    with Cons.prems have f: "find_from P xs (Suc n) = Some (j, x)" by simp
    from find_from_Some[OF f] have "Suc n \<le> j" by simp
    then have "j - n = Suc (j - Suc n)" by simp
    with Cons.IH[OF f Cons.prems(2)] False show ?thesis by simp
  qed
qed

lemma findFirst_update:
  "findFirst P xs = Some (j, x) \<Longrightarrow> P y \<Longrightarrow> findFirst P (xs[j := y]) = Some (j, y)"
  using find_from_update[of P xs 0 j x y] by (simp add: findFirst_def)

lemma status_update_nofault:
  assumes "findFirst (\<lambda>r. c_twilioCallSid r = CallSid f) (calls d) = Some (i, c)"
    and "c_status c \<noteq> ''completed''"
    and "\<forall>k. c_assignedCounselorId c = Some k \<longrightarrow> k < length (users d)"
  shows "status_update ev f \<lparr>store = d, faults = []\<rparr> =
           (Inr empty_response, \<lparr>store = completed_store ev i c d, faults = []\<rparr>)"
proof -
  from findFirst_Some[OF assms(1)] have i: "i < length (calls d)" "calls d ! i = c" by auto
  show ?thesis
    using assms i
    by (cases "c_assignedCounselorId c")
       (simp_all add: status_update_def bnd_def ret_def call_findUnique_sid_def call_update_def
          user_update_def prisma_nofault completed_store_def)
qed

lemma status_update_again:
  assumes "findFirst (\<lambda>r. c_twilioCallSid r = CallSid f) (calls d) = Some (i, c)"
    and "c_status c = ''completed''"
  shows "status_update ev f \<lparr>store = d, faults = []\<rparr> = (Inr empty_response, \<lparr>store = d, faults = []\<rparr>)"
  using assms
  by (simp add: status_update_def bnd_def ret_def call_findUnique_sid_def prisma_nofault)

lemma status_update_completed:
  assumes "findFirst (\<lambda>r. c_twilioCallSid r = CallSid f) (calls d0) = Some (i, c)"
    and "c_status c = ''completed''"
  shows "keeps nf (\<lambda>d. d = d0) (status_update ev f)"
  unfolding status_update_def keeps_def
proof (rule triple_bnd[where R = "\<lambda>ex d. d = d0 \<and> ex = Some (i, c)"])
  show "triple nf (\<lambda>d. d = d0) (call_findUnique_sid (CallSid f))
          (\<lambda>ex d. d = d0 \<and> ex = Some (i, c)) (\<lambda>d. d = d0)"
    unfolding call_findUnique_sid_def by (rule triple_prisma) (simp add: assms)
next
  fix ex
  show "triple nf (\<lambda>d. d = d0 \<and> ex = Some (i, c))
     (bnd (case ex of
        None \<Rightarrow> ret ()
      | Some (cid, c) \<Rightarrow>
          if c_status c \<noteq> ''completed'' then
            bnd (call_update cid (\<lambda>r. r\<lparr>c_status := ''completed'', c_endedAt := Some (now ev)\<rparr>))
              (\<lambda>u. case c_assignedCounselorId c of
                     None \<Rightarrow> ret ()
                   | Some k \<Rightarrow>
                       bnd (user_update k (\<lambda>r. r\<lparr>u_status := ''available''\<rparr>)) (\<lambda>u. ret ()))
          else ret ())
        (\<lambda>u. ret empty_response))
     (\<lambda>x d. d = d0) (\<lambda>d. d = d0)"
  proof (cases "ex = Some (i, c)")
    case True
    with assms(2) show ?thesis by (simp add: triple_def bnd_def ret_def)
  next
    case False
    then show ?thesis by (simp add: triple_def)
  qed
qed

lemma terminal_again:
  assumes "is_terminal f"
    and "findFirst (\<lambda>r. c_twilioCallSid r = CallSid f) (calls d) = Some (i, c)"
    and "c_status c = ''completed''"
  shows "snd (POST ev f d) = d"
proof -
  from assms(1) have h: "handle ev f = status_update ev f" by (simp add: handle_def)
  from keepsD[OF status_update_completed[OF assms(2,3), of False ev],
      of "\<lparr>store = d, faults = storage_faults ev\<rparr>"]
  show ?thesis unfolding store_POST h by simp
qed

section \<open>The reply to a teacher\<close>

lemma succeeds_ret: "succeeds P (ret x)"
  unfolding succeeds_def by (rule triple_ret)

lemma succeeds_bnd: "succeeds P m \<Longrightarrow> (\<And>x. succeeds P (k x)) \<Longrightarrow> succeeds P (bnd m k)"
  unfolding succeeds_def by (rule triple_bnd)

lemma succeeds_prisma:
  "(\<And>d. P d \<Longrightarrow> \<exists>x d'. op d = Inr (x, d') \<and> P d') \<Longrightarrow> succeeds P (prisma op)"
  unfolding succeeds_def by (rule triple_prisma) fastforce

lemma succeeds_prims:
  "succeeds (valid_call i) (classroom_findFirst nm tid)"
  "succeeds (valid_call i) (classroom_create nm tid)"
  "succeeds (valid_call i) (student_findFirst nm cls)"
  "succeeds (valid_call i) (student_create nm cls)"
  "succeeds (valid_call i) (grade_create gr)"
  "succeeds (valid_call i) (conversation_create uid)"
  "succeeds (valid_call i) (message_create cv r t)"
  "succeeds (valid_call i) (call_update i g)"
  unfolding classroom_findFirst_def classroom_create_def student_findFirst_def student_create_def
    grade_create_def conversation_create_def message_create_def call_update_def
  by (rule succeeds_prisma; simp add: valid_call_def)+

lemmas succeeds_intros = succeeds_bnd succeeds_ret succeeds_prims

lemma succeeds_ensure_classroom: "succeeds (valid_call i) (ensure_classroom cn tid)"
  unfolding ensure_classroom_def
  by (auto intro!: succeeds_intros split: option.splits prod.splits)

lemma succeeds_save_entries: "succeeds (valid_call i) (save_entries cls es n)"
  by (induction cls es n rule: save_entries.induct)
     (auto intro!: succeeds_intros split: option.splits prod.splits simp: Let_def)

lemma succeeds_save_confirmation: "succeeds (valid_call (fst call)) (save_confirmation call t)"
  unfolding save_confirmation_def
  by (auto intro!: succeeds_intros split: option.splits)

lemma teacher_grades_reply:
  assumes p: "extraction_pipeline ev sp = Inr pr" and e: "entries pr \<noteq> []"
  shows "triple True (valid_call (fst call)) (teacher_grades ev sp call tid)
           (\<lambda>r d. \<exists>n. r = Some (xml_response (teacher_xml (speak_reply pr (confirm_text pr n)))))
           (\<lambda>d. False)"
proof -
  let ?P = "valid_call (fst call)"
  have "triple True ?P
     (bnd (ensure_classroom (className pr) tid) (\<lambda>classroomId.
      bnd (save_entries classroomId (entries pr) 0) (\<lambda>savedCount.
        bnd (save_confirmation call (confirm_text pr savedCount)) (\<lambda>u.
          ret (Some (xml_response (teacher_xml (speak_reply pr (confirm_text pr savedCount)))))))))
     (\<lambda>r d. \<exists>n. r = Some (xml_response (teacher_xml (speak_reply pr (confirm_text pr n)))))
     (\<lambda>d. False)"
    apply (rule triple_bnd[OF succeeds_ensure_classroom[unfolded succeeds_def]])
    apply (rule triple_bnd[OF succeeds_save_entries[unfolded succeeds_def]])
    apply (rule triple_bnd[OF succeeds_save_confirmation[unfolded succeeds_def]])
    apply (rule triple_ret)
    apply blast
    done
  with p e show ?thesis
    by (simp add: teacher_grades_def lift_def bnd_def ret_def Let_def)
qed

lemma teacher_grades_nofault:
  assumes "faults s = []" and "fst call < length (calls (store s))"
    and "extraction_pipeline ev sp = Inr pr" and "entries pr \<noteq> []"
  shows "\<exists>n s'. teacher_grades ev sp call tid s =
           (Inr (Some (xml_response (teacher_xml (speak_reply pr (confirm_text pr n))))), s')"
proof -
  obtain r s' where m: "teacher_grades ev sp call tid s = (r, s')" by fastforce
  from teacher_grades_reply[OF assms(3,4), of call tid] assms(1,2) m
  have "case r of Inr x \<Rightarrow> \<exists>n. x = Some (xml_response (teacher_xml (speak_reply pr (confirm_text pr n))))
        | Inl e \<Rightarrow> False"
    unfolding triple_def valid_call_def by (fastforce split: sum.splits)
  with m show ?thesis by (cases r) auto
qed

lemma clean_strips:
  "set (clean x) \<inter> {CHR ''<'', CHR ''>'', CHR ''&'', CHR 0x27, CHR 0x22} = {}"
  using set_trim[of "filter (\<lambda>c. c \<notin> {CHR ''<'', CHR ''>'', CHR ''&'', CHR 0x27, CHR 0x22}) x"]
  unfolding clean_def by auto

lemma teacher_xml_verbatim:
  \<open>str_includes (teacher_xml t) (''<Say voice="alice">'' @ t @ ''</Say>'')\<close>
proof -
  have \<open>teacher_xml t = (xml_header @ nl @ ''<Response>'' @ nl @ ''  '') @
          (''<Say voice="alice">'' @ t @ ''</Say>'') @
          (nl @ gather_open @ nl @ ''    <Say>Please speak the next entries after the beep.</Say>'' @ nl @
           ''  </Gather>'' @ nl @ ''  <Say>Thank you. Goodbye.</Say>'' @ nl @ ''</Response>'')\<close>
    by (simp add: teacher_xml_def)
  then show ?thesis by (simp only: str_includes_sublist sublist_appendI)
qed

lemma returns_converse_doc:
  \<open>returns (converse ev sp call)
     (\<lambda>r. (\<exists>p. r = xml_response (dial_xml p)) \<or> r = xml_response no_counselor_xml \<or>
          (\<exists>reply. r = xml_response (conversation_xml
              (if clean reply = [] then ''I'm here to listen. How are you feeling?''
               else clean reply))))\<close>
proof -
  define P where \<open>P = (\<lambda>r. (\<exists>p. r = xml_response (dial_xml p)) \<or> r = xml_response no_counselor_xml \<or>
          (\<exists>reply. r = xml_response (conversation_xml
              (if clean reply = [] then ''I'm here to listen. How are you feeling?''
               else clean reply))))\<close>
  have d: "P (xml_response (dial_xml p))" for p unfolding P_def by blast
  have n: "P (xml_response no_counselor_xml)" unfolding P_def by blast
  have c: \<open>P (xml_response (conversation_xml
              (if clean reply = [] then ''I'm here to listen. How are you feeling?''
               else clean reply)))\<close> for reply
    unfolding P_def by blast
  have e: "returns (escalate call ai) P" for ai
    unfolding escalate_def
    by (intro returns_bnd_any) (simp split: option.splits prod.splits, intro conjI allI impI
        returns_bnd_any returns_ret d n)
  have "returns (converse ev sp call) P"
    unfolding converse_def Let_def
  proof (rule returns_bnd_any)
    fix ai
    show \<open>returns (if needsEscalation ai then escalate call ai
            else ret (xml_response (conversation_xml
                   (if clean (response ai) = [] then ''I'm here to listen. How are you feeling?''
                    else clean (response ai))))) P\<close>
      using e[of ai] c[of "response ai"] by (simp add: returns_ret)
  qed
  then show ?thesis unfolding P_def .
qed

section \<open>Counselors and open calls\<close>

lemma pool_same:
  assumes "pool_inv d"
    and c: "\<And>i. counselor_at d' i = counselor_at d i"
    and a: "\<And>k i. assigned_open d' k i = assigned_open d k i"
    and u: "users d' = users d"
  shows "pool_inv d'"
  using assms(1) by (simp add: pool_inv_def refs_ok_def exclusive_def idle_free_def c a u)

lemma pool_unchanged:
  assumes "pool_inv d" and "calls d' = calls d" and "users d' = users d"
  shows "pool_inv d'"
  using assms(1) by (rule pool_same) (simp_all add: counselor_at_def assigned_open_def assms)

lemma pool_prims:
  "keeps nf pool_inv (conversation_create uid)"
  "keeps nf pool_inv (message_create cv r t)"
  "keeps nf pool_inv (escalation_create e)"
  "keeps nf pool_inv (classroom_create nm tid)"
  "keeps nf pool_inv (student_create nm cls)"
  "keeps nf pool_inv (grade_create gr)"
  unfolding conversation_create_def message_create_def escalation_create_def
    classroom_create_def student_create_def grade_create_def
  by (rule keeps_prisma; auto elim!: pool_unchanged)+

lemma pool_new_user:
  assumes p: "pool_inv d"
  shows "pool_inv (d\<lparr>users := users d @ [u]\<rparr>)"
proof -
  let ?d' = "d\<lparr>users := users d @ [u]\<rparr>"
  from p have r: "refs_ok d" and e: "exclusive d" and i: "idle_free d" by (simp_all add: pool_inv_def)
  have c: "counselor_at ?d' j = counselor_at d j" for j by (simp add: counselor_at_def)
  have ao: "assigned_open ?d' k j = assigned_open d k j" for k j
    by (simp add: assigned_open_def c)
  have r': "refs_ok ?d'"
    unfolding refs_ok_def c
  proof (intro allI impI)
    fix j k assume "counselor_at d j = Some k"
    with r have "k < length (users d)" unfolding refs_ok_def by blast
    then show "k < length (users ?d')" by simp
  qed
  from e have e': "exclusive ?d'" by (simp add: exclusive_def ao)
  have i': "idle_free ?d'"
    unfolding idle_free_def ao
  proof (intro allI impI)
    fix k j assume a: "k < length (users ?d') \<and> u_status (users ?d' ! k) = ''available''"
    show "\<not> assigned_open d k j"
    proof (cases "k < length (users d)")
      case True
      with a have "u_status (users d ! k) = ''available''" by (simp add: nth_append)
      with i True show ?thesis unfolding idle_free_def by blast
    next
      case False
      with r show ?thesis unfolding refs_ok_def assigned_open_def by blast
    qed
  qed
  from r' e' i' show ?thesis by (simp add: pool_inv_def)
qed

lemma pool_user_upsert: "keeps nf pool_inv (user_upsert dflt phone)"
  unfolding user_upsert_def
  by (rule keeps_prisma) (auto simp: Let_def pool_new_user split: option.splits)

lemma pool_new_call:
  assumes p: "pool_inv d" and n: "c_assignedCounselorId c = None"
  shows "pool_inv (d\<lparr>calls := calls d @ [c]\<rparr>)"
proof (rule pool_same[OF p])
  show c: "counselor_at (d\<lparr>calls := calls d @ [c]\<rparr>) i = counselor_at d i" for i
    using n by (auto simp: counselor_at_def nth_append less_Suc_eq)
  show "assigned_open (d\<lparr>calls := calls d @ [c]\<rparr>) k i = assigned_open d k i" for k i
    unfolding assigned_open_def c
    by (cases "i < length (calls d)") (auto simp: nth_append counselor_at_def)
qed simp

lemma pool_call_create:
  "keeps nf pool_inv
     (call_create \<lparr>c_userId = uid, c_twilioCallSid = sid, c_status = ''ai_handling'',
                   c_endedAt = None, c_assignedCounselorId = None, c_conversation = Some cv\<rparr>)"
  unfolding call_create_def
  by (rule keeps_prisma) (auto simp: pool_new_call split: if_splits)

lemma pool_update_call:
  assumes p: "pool_inv d"
    and g: "c_assignedCounselorId (g (calls d ! i)) = c_assignedCounselorId (calls d ! i)"
      "c_status (g (calls d ! i)) = c_status (calls d ! i)"
  shows "pool_inv (d\<lparr>calls := (calls d)[i := g (calls d ! i)]\<rparr>)"
proof (rule pool_same[OF p])
  show c: "counselor_at (d\<lparr>calls := (calls d)[i := g (calls d ! i)]\<rparr>) j = counselor_at d j" for j
    using g by (cases "j = i") (auto simp: counselor_at_def)
  show "assigned_open (d\<lparr>calls := (calls d)[i := g (calls d ! i)]\<rparr>) k j = assigned_open d k j" for k j
    unfolding assigned_open_def c
    using g by (cases "j = i") (auto simp: counselor_at_def)
qed simp

lemma pool_call_update_conversation:
  "keeps nf pool_inv (call_update i (\<lambda>r. r\<lparr>c_conversation := Some cv\<rparr>))"
  unfolding call_update_def
  by (rule keeps_prisma) (auto simp: pool_update_call split: if_splits)

lemma pool_writes: "writes_keep nf pool_inv"
  unfolding writes_keep_def user_message_once_def
  by (auto intro!: keeps_bnd keeps_ret keeps_reads pool_prims pool_user_upsert pool_call_create
      pool_call_update_conversation)

lemma pool_complete:
  fixes t :: "nat option"
  assumes p: "pool_inv d" and i: "i < length (calls d)"
  shows "pool_inv (d\<lparr>calls := (calls d)[i := (calls d ! i)\<lparr>c_status := ''completed'', c_endedAt := t\<rparr>]\<rparr>)"
    and "c_status (calls d ! i) \<noteq> ''completed'' \<Longrightarrow> c_assignedCounselorId (calls d ! i) = Some k \<Longrightarrow>
         \<not> assigned_open
             (d\<lparr>calls := (calls d)[i := (calls d ! i)\<lparr>c_status := ''completed'', c_endedAt := t\<rparr>]\<rparr>) k j"
proof -
  let ?d1 = "d\<lparr>calls := (calls d)[i := (calls d ! i)\<lparr>c_status := ''completed'', c_endedAt := t\<rparr>]\<rparr>"
  from p have r: "refs_ok d" and e: "exclusive d" and f: "idle_free d" by (simp_all add: pool_inv_def)
  have c: "counselor_at ?d1 n = counselor_at d n" for n
    by (cases "n = i") (auto simp: counselor_at_def)
  have ao: "assigned_open ?d1 k' n = (assigned_open d k' n \<and> n \<noteq> i)" for k' n
    unfolding assigned_open_def c using i by (cases "n = i") auto
  from r have "refs_ok ?d1" unfolding refs_ok_def c by simp
  moreover from e have "exclusive ?d1" unfolding exclusive_def ao by blast
  moreover from f have "idle_free ?d1" unfolding idle_free_def ao by simp
  ultimately show "pool_inv ?d1" by (simp add: pool_inv_def)
  show "\<not> assigned_open ?d1 k j"
    if o: "c_status (calls d ! i) \<noteq> ''completed''" and a: "c_assignedCounselorId (calls d ! i) = Some k"
  proof
    assume "assigned_open ?d1 k j"
    then have 1: "assigned_open d k j" and 2: "j \<noteq> i" by (simp_all add: ao)
    from i o a have "assigned_open d k i" by (simp add: assigned_open_def counselor_at_def)
    with 1 e have "j = i" unfolding exclusive_def by blast
    with 2 show False by simp
  qed
qed

lemma pool_release:
  assumes p: "pool_inv d" and n: "\<And>j. \<not> assigned_open d k j"
  shows "pool_inv (d\<lparr>users := (users d)[k := (users d ! k)\<lparr>u_status := ''available''\<rparr>]\<rparr>)"
proof -
  let ?d1 = "d\<lparr>users := (users d)[k := (users d ! k)\<lparr>u_status := ''available''\<rparr>]\<rparr>"
  from p have r: "refs_ok d" and e: "exclusive d" and f: "idle_free d" by (simp_all add: pool_inv_def)
  have c: "counselor_at ?d1 m = counselor_at d m" for m by (simp add: counselor_at_def)
  have ao: "assigned_open ?d1 k' m = assigned_open d k' m" for k' m by (simp add: assigned_open_def c)
  from r have "refs_ok ?d1" by (simp add: refs_ok_def c)
  moreover from e have "exclusive ?d1" by (simp add: exclusive_def ao)
  moreover have "idle_free ?d1"
    unfolding idle_free_def ao
  proof (intro allI impI)
    fix k' m assume a: "k' < length (users ?d1) \<and> u_status (users ?d1 ! k') = ''available''"
    show "\<not> assigned_open d k' m"
    proof (cases "k' = k")
      case True
      with n show ?thesis by simp
    next
      case False
      with a f show ?thesis unfolding idle_free_def by simp
    qed
  qed
  ultimately show ?thesis by (simp add: pool_inv_def)
qed

lemma pool_assign:
  assumes p: "pool_inv d" and k: "k < length (users d)" "u_status (users d ! k) = ''available''"
    and i: "i < length (calls d)"
  shows "pool_pending k
    (d\<lparr>calls := (calls d)[i := (calls d ! i)\<lparr>c_status := ''counselor_assigned'',
                                               c_assignedCounselorId := Some k\<rparr>]\<rparr>)"
proof -
  let ?d1 = "d\<lparr>calls := (calls d)[i := (calls d ! i)\<lparr>c_status := ''counselor_assigned'',
                                               c_assignedCounselorId := Some k\<rparr>]\<rparr>"
  from p have r: "refs_ok d" and e: "exclusive d" and f: "idle_free d" by (simp_all add: pool_inv_def)
  from f k have free: "\<not> assigned_open d k n" for n unfolding idle_free_def by blast
  have c: "counselor_at ?d1 n = (if n = i then Some k else counselor_at d n)" for n
    using i by (auto simp: counselor_at_def)
  have ao: "assigned_open ?d1 k' n = (if n = i then k' = k else assigned_open d k' n)" for k' n
    using i by (auto simp: assigned_open_def c)
  from r k have "refs_ok ?d1" by (simp add: refs_ok_def c)
  moreover have "exclusive ?d1"
    unfolding exclusive_def ao
  proof (intro allI impI)
    fix k' m n
    assume a: "(if m = i then k' = k else assigned_open d k' m) \<and>
               (if n = i then k' = k else assigned_open d k' n)"
    show "m = n"
    proof (cases "m = i")
      case mi: True
      show ?thesis
      proof (cases "n = i")
        case True with mi show ?thesis by simp
      next
        case False with a mi free[of n] show ?thesis by auto
      qed
    next
      case mi: False
      show ?thesis
      proof (cases "n = i")
        case True with a mi free[of m] show ?thesis by auto
      next
        case False with a mi e show ?thesis unfolding exclusive_def by auto
      qed
    qed
  qed
  moreover have "\<forall>k' n. k' < length (users ?d1) \<and> u_status (users ?d1 ! k') = ''available'' \<and> k' \<noteq> k \<longrightarrow>
              \<not> assigned_open ?d1 k' n"
    unfolding ao using f unfolding idle_free_def by simp
  ultimately show ?thesis using k by (simp add: pool_pending_def)
qed

lemma pool_reserve:
  assumes p: "pool_pending k d"
  shows "pool_inv (d\<lparr>users := (users d)[k := (users d ! k)\<lparr>u_status := ''busy''\<rparr>]\<rparr>)"
proof -
  let ?d1 = "d\<lparr>users := (users d)[k := (users d ! k)\<lparr>u_status := ''busy''\<rparr>]\<rparr>"
  from p have r: "refs_ok d" and e: "exclusive d" and k: "k < length (users d)"
    and f: "\<And>k' i. k' < length (users d) \<Longrightarrow> u_status (users d ! k') = ''available'' \<Longrightarrow> k' \<noteq> k \<Longrightarrow>
              \<not> assigned_open d k' i"
    by (simp_all add: pool_pending_def)
  have c: "counselor_at ?d1 m = counselor_at d m" for m by (simp add: counselor_at_def)
  have ao: "assigned_open ?d1 k' m = assigned_open d k' m" for k' m by (simp add: assigned_open_def c)
  from r have "refs_ok ?d1" by (simp add: refs_ok_def c)
  moreover from e have "exclusive ?d1" by (simp add: exclusive_def ao)
  moreover have "idle_free ?d1"
    unfolding idle_free_def ao
  proof (intro allI impI)
    fix k' m assume a: "k' < length (users ?d1) \<and> u_status (users ?d1 ! k') = ''available''"
    show "\<not> assigned_open d k' m"
    proof (cases "k' = k")
      case True
      with a k show ?thesis by simp
    next
      case False
      with a f[of k' m] show ?thesis by simp
    qed
  qed
  ultimately show ?thesis by (simp add: pool_inv_def)
qed

lemma pool_status_update: "keeps nf pool_inv (status_update ev f)"
  unfolding status_update_def keeps_def
proof (rule triple_bnd[where R = "\<lambda>ex d. pool_inv d \<and>
          (\<forall>cid c. ex = Some (cid, c) \<longrightarrow> cid < length (calls d) \<and> calls d ! cid = c)"])
  show "triple nf pool_inv (call_findUnique_sid (CallSid f))
     (\<lambda>ex d. pool_inv d \<and> (\<forall>cid c. ex = Some (cid, c) \<longrightarrow> cid < length (calls d) \<and> calls d ! cid = c))
     pool_inv"
    unfolding call_findUnique_sid_def
    by (rule triple_prisma) (auto dest!: findFirst_Some)
next
  fix ex
  let ?R = "\<lambda>d. pool_inv d \<and>
          (\<forall>cid c. ex = Some (cid, c) \<longrightarrow> cid < length (calls d) \<and> calls d ! cid = c)"
  have body: "triple nf ?R
     (case ex of
        None \<Rightarrow> ret ()
      | Some (cid, c) \<Rightarrow>
          if c_status c \<noteq> ''completed'' then
            bnd (call_update cid (\<lambda>r. r\<lparr>c_status := ''completed'', c_endedAt := Some (now ev)\<rparr>))
              (\<lambda>u. case c_assignedCounselorId c of
                     None \<Rightarrow> ret ()
                   | Some k \<Rightarrow>
                       bnd (user_update k (\<lambda>r. r\<lparr>u_status := ''available''\<rparr>)) (\<lambda>u. ret ()))
          else ret ())
     (\<lambda>x. pool_inv) pool_inv"
  proof (cases ex)
    case None
    then show ?thesis by (auto intro!: triple_ret)
  next
    case (Some a)
    obtain cid c where a: "a = (cid, c)" by (cases a)
    show ?thesis
    proof (cases "c_status c = ''completed''")
      case True
      with Some a show ?thesis by (auto intro!: triple_ret)
    next
      case False
      let ?M = "\<lambda>d. pool_inv d \<and> (\<forall>k j. c_assignedCounselorId c = Some k \<longrightarrow> \<not> assigned_open d k j)"
      have 1: "triple nf (\<lambda>d. pool_inv d \<and> cid < length (calls d) \<and> calls d ! cid = c)
          (call_update cid (\<lambda>r. r\<lparr>c_status := ''completed'', c_endedAt := Some (now ev)\<rparr>))
          (\<lambda>x. ?M) pool_inv"
        unfolding call_update_def
        using False by (intro triple_prisma) (auto simp: pool_complete)
      have 2: "triple nf ?M
          (case c_assignedCounselorId c of
             None \<Rightarrow> ret ()
           | Some k \<Rightarrow> bnd (user_update k (\<lambda>r. r\<lparr>u_status := ''available''\<rparr>)) (\<lambda>u. ret ()))
          (\<lambda>x. pool_inv) pool_inv"
      proof (cases "c_assignedCounselorId c")
        case None
        then show ?thesis by (auto intro!: triple_ret)
      next
        case (Some k)
        have "triple nf ?M (user_update k (\<lambda>r. r\<lparr>u_status := ''available''\<rparr>))
                (\<lambda>x. pool_inv) pool_inv"
          unfolding user_update_def
          using Some by (intro triple_prisma) (auto simp: pool_release)
        then have "triple nf ?M
            (bnd (user_update k (\<lambda>r. r\<lparr>u_status := ''available''\<rparr>)) (\<lambda>u. ret ()))
            (\<lambda>x. pool_inv) pool_inv"
          by (rule triple_bnd) (rule triple_ret)
        with Some show ?thesis by simp
      qed
      have "triple nf (\<lambda>d. pool_inv d \<and> cid < length (calls d) \<and> calls d ! cid = c)
          (bnd (call_update cid (\<lambda>r. r\<lparr>c_status := ''completed'', c_endedAt := Some (now ev)\<rparr>))
              (\<lambda>u. case c_assignedCounselorId c of
                     None \<Rightarrow> ret ()
                   | Some k \<Rightarrow>
                       bnd (user_update k (\<lambda>r. r\<lparr>u_status := ''available''\<rparr>)) (\<lambda>u. ret ())))
          (\<lambda>x. pool_inv) pool_inv"
        by (rule triple_bnd[OF 1 2])
      with Some a False show ?thesis by (auto elim: triple_pre)
    qed
  qed
  show "triple nf ?R
     (bnd (case ex of
        None \<Rightarrow> ret ()
      | Some (cid, c) \<Rightarrow>
          if c_status c \<noteq> ''completed'' then
            bnd (call_update cid (\<lambda>r. r\<lparr>c_status := ''completed'', c_endedAt := Some (now ev)\<rparr>))
              (\<lambda>u. case c_assignedCounselorId c of
                     None \<Rightarrow> ret ()
                   | Some k \<Rightarrow>
                       bnd (user_update k (\<lambda>r. r\<lparr>u_status := ''available''\<rparr>)) (\<lambda>u. ret ()))
          else ret ())
        (\<lambda>u. ret empty_response))
     (\<lambda>x. pool_inv) pool_inv"
    by (rule triple_bnd[OF body]) (rule triple_ret)
qed

lemma pool_escalate: "keeps True pool_inv (escalate call ai)"
  unfolding escalate_def keeps_def
proof (rule triple_bnd[OF keeps_summary[unfolded keeps_def]])
  fix summary
  let ?R = "\<lambda>counselor d. pool_inv d \<and>
          (\<forall>k u. counselor = Some (k, u) \<longrightarrow> k < length (users d) \<and> u_status (users d ! k) = ''available'')"
  show "triple True pool_inv
     (bnd findAvailableCounselor (\<lambda>counselor.
        case counselor of
          None \<Rightarrow> ret (xml_response no_counselor_xml)
        | Some (k, u) \<Rightarrow>
            bnd (escalation_create
                  \<lparr>e_callId = fst call, e_counselorId = k,
                   e_notes = ''Reason: '' @ escalationReason ai @ nl @ ''Summary: '' @ summary\<rparr>) (\<lambda>u1.
            bnd (call_update (fst call)
                  (\<lambda>r. r\<lparr>c_status := ''counselor_assigned'', c_assignedCounselorId := Some k\<rparr>)) (\<lambda>u2.
            bnd (user_update k (\<lambda>r. r\<lparr>u_status := ''busy''\<rparr>)) (\<lambda>u3.
              ret (xml_response (dial_xml (u_phone u))))))))
     (\<lambda>x. pool_inv) pool_inv"
  proof (rule triple_bnd[where R = ?R])
    show "triple True pool_inv findAvailableCounselor ?R pool_inv"
      unfolding findAvailableCounselor_def user_findFirst_def
      by (rule triple_prisma) (auto dest!: findFirst_Some)
  next
    fix counselor
    show "triple True (?R counselor)
       (case counselor of
          None \<Rightarrow> ret (xml_response no_counselor_xml)
        | Some (k, u) \<Rightarrow>
            bnd (escalation_create
                  \<lparr>e_callId = fst call, e_counselorId = k,
                   e_notes = ''Reason: '' @ escalationReason ai @ nl @ ''Summary: '' @ summary\<rparr>) (\<lambda>u1.
            bnd (call_update (fst call)
                  (\<lambda>r. r\<lparr>c_status := ''counselor_assigned'', c_assignedCounselorId := Some k\<rparr>)) (\<lambda>u2.
            bnd (user_update k (\<lambda>r. r\<lparr>u_status := ''busy''\<rparr>)) (\<lambda>u3.
              ret (xml_response (dial_xml (u_phone u)))))))
       (\<lambda>x. pool_inv) pool_inv"
    proof (cases counselor)
      case None
      then show ?thesis by (auto intro!: triple_ret)
    next
      case (Some a)
      obtain k u where a: "a = (k, u)" by (cases a)
      let ?A = "\<lambda>d. pool_inv d \<and> k < length (users d) \<and> u_status (users d ! k) = ''available''"
      have 1: "triple True ?A (escalation_create e) (\<lambda>x. ?A) pool_inv" for e
        unfolding escalation_create_def
        by (rule triple_prisma) (auto elim!: pool_unchanged)
      have 2: "triple True ?A
          (call_update (fst call)
             (\<lambda>r. r\<lparr>c_status := ''counselor_assigned'', c_assignedCounselorId := Some k\<rparr>))
          (\<lambda>x. pool_pending k) pool_inv"
        unfolding call_update_def
        by (rule triple_prisma) (auto simp: pool_assign)
      have 3: "triple True (pool_pending k) (user_update k (\<lambda>r. r\<lparr>u_status := ''busy''\<rparr>))
          (\<lambda>x. pool_inv) pool_inv"
        unfolding user_update_def
        by (rule triple_prisma) (auto simp: pool_reserve pool_pending_def)
      have "triple True ?A
          (bnd (escalation_create
                  \<lparr>e_callId = fst call, e_counselorId = k,
                   e_notes = ''Reason: '' @ escalationReason ai @ nl @ ''Summary: '' @ summary\<rparr>) (\<lambda>u1.
            bnd (call_update (fst call)
                  (\<lambda>r. r\<lparr>c_status := ''counselor_assigned'', c_assignedCounselorId := Some k\<rparr>)) (\<lambda>u2.
            bnd (user_update k (\<lambda>r. r\<lparr>u_status := ''busy''\<rparr>)) (\<lambda>u3.
              ret (xml_response (dial_xml (u_phone u)))))))
          (\<lambda>x. pool_inv) pool_inv"
        by (intro triple_bnd[OF 1] triple_bnd[OF 2] triple_bnd[OF 3] triple_ret)
      with Some a show ?thesis by (auto elim: triple_pre)
    qed
  qed
qed

lemma pool_POST:
  assumes "pool_inv d" and "storage_faults ev = []"
  shows "pool_inv (snd (POST ev f d))"
  by (rule keeps_POST[of True, OF pool_writes pool_escalate pool_status_update]) (simp_all add: assms)

lemma pool_run:
  assumes "pool_inv d" and "\<forall>(ev, f) \<in> set evs. storage_faults ev = []"
  shows "pool_inv (run evs d)"
  using assms
proof (induction evs arbitrary: d)
  case Nil
  then show ?case by simp
next
  case (Cons e evs)
  obtain ev f where e: "e = (ev, f)" by (cases e)
  with Cons.prems have "pool_inv (snd (POST ev f d))" by (auto intro: pool_POST)
  with Cons.IH[of "snd (POST ev f d)"] Cons.prems e show ?case by simp
qed

lemma pool_init: "calls d = [] \<Longrightarrow> pool_inv d"
  by (simp add: pool_inv_def refs_ok_def exclusive_def idle_free_def assigned_open_def counselor_at_def)

section \<open>An escalating turn\<close>

lemma findAvailableCounselor_eq: "findAvailableCounselor = user_findFirst available_counselor"
  unfolding findAvailableCounselor_def available_counselor_def ..

lemma escalate_nofault:
  assumes "faults s = []" and "fst call < length (calls (store s))"
  shows "case findFirst available_counselor (users (store s)) of
           None \<Rightarrow> escalate call ai s = (Inr (xml_response no_counselor_xml), s)
         | Some (k, u) \<Rightarrow>
             \<exists>s'. escalate call ai s = (Inr (xml_response (dial_xml (u_phone u))), s') \<and>
                  faults s' = [] \<and>
                  calls (store s') = assign (fst call) k (store s) \<and>
                  users (store s') = reserve k (store s)"
proof (cases "findFirst available_counselor (users (store s))")
  case None
  with assms show ?thesis
    by (simp add: escalate_def generateConversationSummary_def call_with_messages_def
        findAvailableCounselor_eq user_findFirst_def prisma_nofault bnd_def ret_def Let_def
        split: option.splits prod.splits)
next
  case (Some a)
  obtain k u where a: "a = (k, u)" by (cases a)
  from findFirst_Some[OF Some[unfolded a]] have k: "k < length (users (store s))" by simp
  with assms Some a show ?thesis
    by (simp add: escalate_def generateConversationSummary_def call_with_messages_def
        findAvailableCounselor_eq user_findFirst_def escalation_create_def call_update_def
        user_update_def prisma_nofault bnd_def ret_def Let_def assign_def reserve_def
        split: option.splits prod.splits)
qed

lemma resolve_call_found:
  assumes "faults s = []"
    and "findFirst (\<lambda>c. c_twilioCallSid c = CallSid f) (calls (store s)) = Some (i, c)"
  shows "resolve_call ev f s = (Inr (i, c), s)"
  using assms
  by (simp add: resolve_call_def call_findUnique_sid_def prisma_nofault bnd_def ret_def)

lemma connect_call_found:
  assumes "faults s = []"
    and "findFirst (\<lambda>c. c_twilioCallSid c = CallSid f) (calls (store s)) = Some (i, c)"
  shows "connect_call ev f s = (Inr (), s)"
  using assms
  by (simp add: connect_call_def call_findUnique_sid_def prisma_nofault bnd_def ret_def)

lemma save_transcription_nofault:
  assumes "faults s = []" and "c_conversation c = Some cv"
  shows "\<exists>s'. save_transcription u (i, c) s = (Inr (i, c), s') \<and> faults s' = [] \<and>
              users (store s') = users (store s) \<and> calls (store s') = calls (store s)"
  using assms
  by (auto simp: save_transcription_def ensure_conversation_def persist_transcript_def
      message_findFirst_def message_create_def prisma_nofault bnd_def ret_def try_catch_def)

lemma teacher_turn_other:
  assumes "faults s = []"
    and "case row_at (users (store s)) (c_userId c) of
           None \<Rightarrow> True | Some (k, usr) \<Rightarrow> u_role usr \<noteq> ''teacher''"
  shows "teacher_turn ev u (i, c) s = (Inr None, s)"
  using assms
  by (auto simp: teacher_turn_def user_findUnique_def prisma_nofault bnd_def ret_def try_catch_def
      split: option.splits)

lemma getAIResponse_nofault:
  assumes "faults s = []" and "i < length (calls (store s))"
    and "c_conversation (calls (store s) ! i) = Some cv" and "answers ev"
  shows "\<exists>ai s'. getAIResponse ev u i s = (Inr ai, s') \<and> faults s' = [] \<and>
              needsEscalation ai = needs_escalation u \<and>
              users (store s') = users (store s) \<and> calls (store s') = calls (store s)"
proof -
  let ?h = "\<lambda>d. chatHistory (filter (\<lambda>m. m_conversationId m = cv) (messages d))"
  from assms(4) obtain t where t: "cohere_chat ev u (?h (store s)) (chat_preamble u) = Inr t"
    unfolding answers_def by blast
  with assms(1-3) show ?thesis
    unfolding getAIResponse_def call_with_messages_def add_user_message_def chat_turn_def
      message_findFirst_def message_create_def
    by (auto simp: prisma_nofault bnd_def ret_def try_catch_def lift_def throw_def Let_def row_at_def
        split: sum.splits prod.splits option.splits)
qed

lemma speech_turn_escalating:
  assumes f: "faults s = []"
    and c: "findFirst (\<lambda>c. c_twilioCallSid c = CallSid f) (calls (store s)) = Some (i, c)"
    and cv: "c_conversation c = Some cv"
    and t: "case row_at (users (store s)) (c_userId c) of
              None \<Rightarrow> True | Some (k, usr) \<Rightarrow> u_role usr \<noteq> ''teacher''"
    and a: "answers ev" and n: "needs_escalation u"
  shows "case findFirst available_counselor (users (store s)) of
           None \<Rightarrow>
             \<exists>s'. speech_turn ev f u s = (Inr (xml_response no_counselor_xml), s') \<and>
                   calls (store s') = calls (store s) \<and> users (store s') = users (store s)
         | Some (k, usr) \<Rightarrow>
             \<exists>s'. speech_turn ev f u s = (Inr (xml_response (dial_xml (u_phone usr))), s') \<and>
                  calls (store s') = assign i k (store s) \<and>
                  users (store s') = reserve k (store s)"
proof -
  from findFirst_Some[OF c] have i: "i < length (calls (store s))" "calls (store s) ! i = c"
    by auto
  note 1 = resolve_call_found[OF f c, of ev]
  from save_transcription_nofault[OF f cv, of u i] obtain s1 where
    2: "save_transcription u (i, c) s = (Inr (i, c), s1)" and f1: "faults s1 = []"
    and u1: "users (store s1) = users (store s)" and c1: "calls (store s1) = calls (store s)"
    by blast
  from t u1 have t1: "case row_at (users (store s1)) (c_userId c) of
              None \<Rightarrow> True | Some (k, usr) \<Rightarrow> u_role usr \<noteq> ''teacher''" by simp
  note 3 = teacher_turn_other[OF f1 t1, of ev u i]
  from i c1 cv have "i < length (calls (store s1))" "c_conversation (calls (store s1) ! i) = Some cv"
    by auto
  from getAIResponse_nofault[OF f1 this a, of u] n obtain ai s2 where
    4: "getAIResponse ev u i s1 = (Inr ai, s2)" and f2: "faults s2 = []"
    and n2: "needsEscalation ai"
    and u2: "users (store s2) = users (store s)" and c2: "calls (store s2) = calls (store s)"
    using u1 c1 by auto
  from i c2 have i2: "fst (i, c) < length (calls (store s2))" by simp
  have pre: "speech_turn ev f u s =
               (case escalate (i, c) ai s2 of
                  (Inl e, s') \<Rightarrow> (Inr (xml_response speech_error_xml), s')
                | (Inr r, s') \<Rightarrow> (Inr r, s'))"
    using 1 2 3 4 n2
    by (simp add: speech_turn_def converse_def bnd_def ret_def try_catch_def)
  show ?thesis
  proof (cases "findFirst available_counselor (users (store s))")
    case None
    with escalate_nofault[OF f2 i2, of ai] u2
    have "escalate (i, c) ai s2 = (Inr (xml_response no_counselor_xml), s2)" by simp
    with pre None u2 c2 show ?thesis by simp
  next
    case (Some a)
    obtain k usr where a: "a = (k, usr)" by (cases a)
    from escalate_nofault[OF f2 i2, of ai] u2 Some a obtain s3 where
      "escalate (i, c) ai s2 = (Inr (xml_response (dial_xml (u_phone usr))), s3)"
      "calls (store s3) = assign i k (store s2)" "users (store s3) = reserve k (store s2)"
      by auto
    with pre Some a u2 c2 show ?thesis by (simp add: assign_def reserve_def)
  qed
qed

lemma trim_Nil: "trim [] = []"
  by (simp add: trim_def)

lemma escalating_turn_POST:
  assumes "escalating_turn ev f d i"
  shows "case findFirst available_counselor (users d) of
           None \<Rightarrow>
             fst (POST ev f d) = xml_response no_counselor_xml \<and>
             calls (snd (POST ev f d)) = calls d \<and> users (snd (POST ev f d)) = users d
         | Some (k, usr) \<Rightarrow>
             fst (POST ev f d) = xml_response (dial_xml (u_phone usr)) \<and>
             calls (snd (POST ev f d)) = assign i k d \<and>
             users (snd (POST ev f d)) = reserve k d"
proof -
  let ?s = "\<lparr>store = d, faults = []\<rparr>"
  from assms obtain u c cv where
    nf: "storage_faults ev = []" and a: "answers ev" and nt: "\<not> is_terminal f"
    and sp: "SpeechResult f = Some u" and tr: "trim u \<noteq> []" and n: "needs_escalation u"
    and c: "findFirst (\<lambda>c. c_twilioCallSid c = CallSid f) (calls d) = Some (i, c)"
    and cv: "c_conversation c = Some cv"
    and t: "case row_at (users d) (c_userId c) of
              None \<Rightarrow> True | Some (k, usr) \<Rightarrow> u_role usr \<noteq> ''teacher''"
    by (auto simp: escalating_turn_def split: option.splits)
  from tr have une: "u \<noteq> []" using trim_Nil by auto
  have h: "handle ev f ?s = speech_turn ev f u ?s"
    using nt sp tr une connect_call_found[of ?s f i c ev] c
    by (simp add: handle_def bnd_def truthy_def)
  have P: "POST ev f d = (case speech_turn ev f u ?s of
              (Inr r, s) \<Rightarrow> (r, store s) | (Inl error, s) \<Rightarrow> (xml_response errorXml, store s))"
    by (simp add: POST_def nf h)
  from speech_turn_escalating[of ?s f i c cv ev u] c cv t a n
  show ?thesis
    by (auto simp: P split: option.splits)
qed

lemma findFirst_available:
  assumes "available_counselors d = [k]"
  shows "findFirst available_counselor (users d) = Some (k, users d ! k)"
    and "findFirst available_counselor (reserve k d) = None"
    and "k < length (users d)" and "available_counselor (users d ! k)"
proof -
  from assms have "k \<in> set (available_counselors d)" by simp
  then show k: "k < length (users d)" and av: "available_counselor (users d ! k)"
    by (auto simp: available_counselors_def)
  have only: "j = k" if "j < length (users d)" "available_counselor (users d ! j)" for j
  proof -
    from that have "j \<in> set (available_counselors d)" by (auto simp: available_counselors_def)
    with assms show ?thesis by simp
  qed
  show "findFirst available_counselor (users d) = Some (k, users d ! k)"
  proof (cases "findFirst available_counselor (users d)")
    case None
    with k av show ?thesis by (auto simp: findFirst_None)
  next
    case (Some a)
    obtain j x where a: "a = (j, x)" by (cases a)
    from findFirst_Some[OF Some[unfolded a]] only[of j] Some a show ?thesis by auto
  qed
  show "findFirst available_counselor (reserve k d) = None"
    unfolding findFirst_None
  proof
    fix x assume "x \<in> set (reserve k d)"
    then obtain j where j: "j < length (users d)" "x = reserve k d ! j"
      by (auto simp: in_set_conv_nth reserve_def)
    show "\<not> available_counselor x"
    proof (cases "j = k")
      case True
      with j show ?thesis by (simp add: reserve_def available_counselor_def)
    next
      case False
      with j only[of j] show ?thesis by (auto simp: reserve_def)
    qed
  qed
qed

lemma two_escalating_calls:
  assumes 1: "escalating_turn ev1 f1 d i1"
    and 2: "escalating_turn ev2 f2 (snd (POST ev1 f1 d)) i2"
    and k: "available_counselors d = [k]" and ne: "i1 \<noteq> i2"
  shows "fst (POST ev1 f1 d) = xml_response (dial_xml (u_phone (users d ! k)))"
    and "fst (POST ev2 f2 (snd (POST ev1 f1 d))) = xml_response no_counselor_xml"
    and "calls (run [(ev1, f1), (ev2, f2)] d) = assign i1 k d"
    and "users (run [(ev1, f1), (ev2, f2)] d) = reserve k d"
proof -
  let ?d1 = "snd (POST ev1 f1 d)"
  from escalating_turn_POST[OF 1] findFirst_available(1)[OF k]
  have a: "fst (POST ev1 f1 d) = xml_response (dial_xml (u_phone (users d ! k)))"
    "calls ?d1 = assign i1 k d" "users ?d1 = reserve k d"
    by auto
  from escalating_turn_POST[OF 2] findFirst_available(2)[OF k] a(3)
  have b: "fst (POST ev2 f2 ?d1) = xml_response no_counselor_xml"
    "calls (snd (POST ev2 f2 ?d1)) = calls ?d1" "users (snd (POST ev2 f2 ?d1)) = users ?d1"
    by auto
  show "fst (POST ev1 f1 d) = xml_response (dial_xml (u_phone (users d ! k)))" by (rule a(1))
  show "fst (POST ev2 f2 (snd (POST ev1 f1 d))) = xml_response no_counselor_xml" by (rule b(1))
  show "calls (run [(ev1, f1), (ev2, f2)] d) = assign i1 k d" using a b by simp
  show "users (run [(ev1, f1), (ev2, f2)] d) = reserve k d" using a b by simp
qed

section \<open>The claims\<close>

text \<open>
  C7. The escalation flag and reason that the source computes are the classification of
  the raw utterance against the two lexicons, crisis first: the match is a substring
  match on the lower-cased utterance, so utterances that differ only in case classify
  alike, and an utterance with both a crisis term and a professional-request term has
  reason crisis. The reply of the completion service has no part in it: whatever
  \<open>getAIResponse\<close> returns, its flags are this classification or (on the fixed
  replies) no escalation, and when the service replies with any text the flags are the
  classification.
\<close>

theorem escalation_by_lexicon:
  "(needs_escalation u, escalation_reason u) = classify u \<and>
   (toLowerCase v = toLowerCase u \<longrightarrow>
      (needs_escalation v, escalation_reason v) = (needs_escalation u, escalation_reason u)) \<and>
   (matches crisis_lexicon u \<and> matches professional_lexicon u \<longrightarrow> escalation_reason u = ''crisis'') \<and>
   (getAIResponse ev u callId s = (Inr r, s') \<longrightarrow>
      (needsEscalation r, escalationReason r) = classify u \<or>
      ((needsEscalation r, escalationReason r) = (False, []) \<and> response r \<in> set fixed_replies)) \<and>
   (faults s = [] \<and> row_at (calls (store s)) callId = Some (callId, c) \<and> c_conversation c = Some cv \<and>
    cohere_chat ev u (chatHistory (filter (\<lambda>m. m_conversationId m = cv) (messages (store s))))
      (chat_preamble u) = Inr txt \<and> txt \<noteq> [] \<longrightarrow>
      (\<exists>s''. getAIResponse ev u callId s =
          (Inr \<lparr>response = txt, needsEscalation = fst (classify u),
                escalationReason = snd (classify u)\<rparr>, s'')))"
proof (intro conjI impI)
  show "(needs_escalation u, escalation_reason u) = classify u" by (rule classify_source)
next
  assume "toLowerCase v = toLowerCase u"
  then show "(needs_escalation v, escalation_reason v) = (needs_escalation u, escalation_reason u)"
    using classify_source[of v] classify_source[of u] classify_lower[of v u] by simp
next
  assume "matches crisis_lexicon u \<and> matches professional_lexicon u"
  then have "classify u = (True, ''crisis'')" by (simp add: classify_def)
  then show "escalation_reason u = ''crisis''" by (simp add: classify_source[symmetric])
next
  assume "getAIResponse ev u callId s = (Inr r, s')"
  then show "(needsEscalation r, escalationReason r) = classify u \<or>
      ((needsEscalation r, escalationReason r) = (False, []) \<and> response r \<in> set fixed_replies)"
    by (rule getAIResponse_flags)
next
  assume a: "faults s = [] \<and> row_at (calls (store s)) callId = Some (callId, c) \<and> c_conversation c = Some cv \<and>
    cohere_chat ev u (chatHistory (filter (\<lambda>m. m_conversationId m = cv) (messages (store s))))
      (chat_preamble u) = Inr txt \<and> txt \<noteq> []"
  then show "\<exists>s''. getAIResponse ev u callId s =
          (Inr \<lparr>response = txt, needsEscalation = fst (classify u),
                escalationReason = snd (classify u)\<rparr>, s'')"
    using getAIResponse_reply[of s callId c cv ev u "txt"] by auto
qed

theorem escalation_by_lexicon_witness:
  "toLowerCase v0 = toLowerCase u0 \<and>
   (needs_escalation v0, escalation_reason v0) = (needs_escalation u0, escalation_reason u0) \<and>
   matches crisis_lexicon u0 \<and> matches professional_lexicon u0 \<and> escalation_reason u0 = ''crisis'' \<and>
   classify u0 = (True, ''crisis'') \<and>
   getAIResponse env_up u0 0 s0 = (Inr r0, s1) \<and>
   (needsEscalation r0, escalationReason r0) = classify u0 \<and>
   faults s0 = [] \<and> row_at (calls (store s0)) 0 = Some (0, hd (calls db_caller)) \<and>
   c_conversation (hd (calls db_caller)) = Some 0 \<and>
   cohere_chat env_up u0 (chatHistory (filter (\<lambda>m. m_conversationId m = 0) (messages (store s0))))
      (chat_preamble u0) = Inr ''I hear you.''"
proof -
  have h1: "toLowerCase v0 = toLowerCase u0" by code_simp
  have h2: "matches crisis_lexicon u0 \<and> matches professional_lexicon u0" by code_simp
  have h3: "getAIResponse env_up u0 0 s0 = (Inr r0, s1)" by code_simp
  have h4: "faults s0 = [] \<and> row_at (calls (store s0)) 0 = Some (0, hd (calls db_caller)) \<and>
     c_conversation (hd (calls db_caller)) = Some 0 \<and>
     cohere_chat env_up u0 (chatHistory (filter (\<lambda>m. m_conversationId m = 0) (messages (store s0))))
      (chat_preamble u0) = Inr ''I hear you.''"
    by (simp add: s0_def db_caller_def row_at_def env_up_def env_down_def)
  have h5: "classify u0 = (True, ''crisis'')" using h2 by (simp add: classify_def)
  have h6: "(needsEscalation r0, escalationReason r0) = (False, []) \<longrightarrow> False" by (simp add: r0_def)
  from escalation_by_lexicon[of u0 v0 env_up 0 s0 r0 s1 "hd (calls db_caller)" 0 "''I hear you.''"]
    h1 h2 h3 h6
  have "(needs_escalation v0, escalation_reason v0) = (needs_escalation u0, escalation_reason u0) \<and>
        escalation_reason u0 = ''crisis'' \<and> (needsEscalation r0, escalationReason r0) = classify u0"
    by blast
  with h1 h2 h3 h4 h5 show ?thesis by blast
qed

section \<open>The heuristic parser on the documented example\<close>

lemma parseGrades_alice:
  "parseGrades alice =
     \<lparr>className = None,
      entries = [\<lparr>studentName = ''Math'', subject = None, grade = Some 92\<rparr>,
                 \<lparr>studentName = ''Biology'', subject = None, grade = Some 88\<rparr>]\<rparr>"
  by code_simp

text \<open>
  C8. On the utterance \<open>Alice: Math 92, Biology 88\<close> the heuristic parser returns
  two entries, but their student names are \<open>Math\<close> and \<open>Biology\<close> and they have no
  subject: the first pattern of \<open>gradeRegexes\<close> matches \<open>Math 92\<close> before the
  pattern for \<open>Name: Subject 85\<close> is tried. With the extractor down, the turn of a
  teacher stores two students of these names, two grade rows under the subject
  \<open>General\<close>, and answers \<open>Saved 2 grade(s).\<close>
\<close>

theorem extraction_fallback_alice:
  "entries (parseGrades alice) =
     [\<lparr>studentName = ''Math'', subject = None, grade = Some 92\<rparr>,
      \<lparr>studentName = ''Biology'', subject = None, grade = Some 88\<rparr>] \<and>
   entries (parseGrades alice) \<noteq>
     [\<lparr>studentName = ''Alice'', subject = Some ''Math'', grade = Some 92\<rparr>,
      \<lparr>studentName = ''Alice'', subject = Some ''Biology'', grade = Some 88\<rparr>] \<and>
   POST env_down dictation db_teacher =
     (xml_response (teacher_xml ''Saved 2 grade(s). Would you like to add more grades?''),
      db_teacher\<lparr>messages :=
                   [\<lparr>m_conversationId = 0, m_role = ''user'', m_content = alice\<rparr>,
                    \<lparr>m_conversationId = 0, m_role = ''assistant'',
                     m_content = ''Saved 2 grade(s).''\<rparr>],
                 students :=
                   [\<lparr>s_name = ''Math'', s_classroomId = None\<rparr>,
                    \<lparr>s_name = ''Biology'', s_classroomId = None\<rparr>],
                 grades :=
                   [\<lparr>g_studentId = 0, g_subject = ''General'', g_value = 92\<rparr>,
                    \<lparr>g_studentId = 1, g_subject = ''General'', g_value = 88\<rparr>]\<rparr>)"
proof -
  have "POST env_down dictation db_teacher =
     (xml_response (teacher_xml ''Saved 2 grade(s). Would you like to add more grades?''),
      db_teacher\<lparr>messages :=
                   [\<lparr>m_conversationId = 0, m_role = ''user'', m_content = alice\<rparr>,
                    \<lparr>m_conversationId = 0, m_role = ''assistant'',
                     m_content = ''Saved 2 grade(s).''\<rparr>],
                 students :=
                   [\<lparr>s_name = ''Math'', s_classroomId = None\<rparr>,
                    \<lparr>s_name = ''Biology'', s_classroomId = None\<rparr>],
                 grades :=
                   [\<lparr>g_studentId = 0, g_subject = ''General'', g_value = 92\<rparr>,
                    \<lparr>g_studentId = 1, g_subject = ''General'', g_value = 88\<rparr>]\<rparr>)"
    by code_simp
  then show ?thesis by (simp add: parseGrades_alice)
qed

text \<open>
  C9. The extractor and the pipeline around it always return a result and never throw,
  whatever the extraction service does. When the service times out or throws, returns no
  text, or returns text that does not parse as JSON, the extractor returns no entries and
  one of its clarification lines; the pipeline then returns what the heuristic parser
  finds in the utterance, and when that is nothing the teacher's branch hands the turn on
  to the conversation.
\<close>

theorem extraction_never_throws:
  "(\<exists>r. extractGradesWithOpenAI ev t = Inr r) \<and>
   (\<exists>r. extraction_pipeline ev t = Inr r) \<and>
   (extractor_fails ev t \<longrightarrow>
      (\<exists>line \<in> set clarification_lines.
          extractGradesWithOpenAI ev t = Inr (empty_result\<lparr>assistantReply := Some line\<rparr>)) \<and>
      entries empty_result = [] \<and>
      extraction_pipeline ev t = Inr (adapt_parsed (parseGrades t)) \<and>
      (entries (parseGrades t) = [] \<longrightarrow> teacher_grades ev t call tid s = (Inr None, s)))"
  using extract_total[of ev t] pipeline_total[of ev t] extract_fails[of ev t] pipeline_fails[of ev t]
    teacher_grades_nothing[of ev t "adapt_parsed (parseGrades t)" call tid s]
  by (simp add: empty_result_def adapt_parsed_def)

theorem extraction_never_throws_witness:
  "extractor_fails env_down alice \<and> extractor_fails env_prose alice \<and>
   extractGradesWithOpenAI env_down alice =
     Inr (empty_result\<lparr>assistantReply :=
            Some ''I am having trouble parsing that right now. Could you repeat?''\<rparr>) \<and>
   extractGradesWithOpenAI env_prose alice =
     Inr (empty_result\<lparr>assistantReply :=
            Some ''I had trouble extracting structured grades. Could you rephrase?''\<rparr>) \<and>
   extraction_pipeline env_down alice = Inr (adapt_parsed (parseGrades alice)) \<and>
   extraction_pipeline env_prose alice = Inr (adapt_parsed (parseGrades alice)) \<and>
   extractor_fails env_down ''hello'' \<and> entries (parseGrades ''hello'') = [] \<and>
   teacher_grades env_down ''hello'' (0, hd (calls db_teacher)) 0 \<lparr>store = db_teacher, faults = []\<rparr> =
     (Inr None, \<lparr>store = db_teacher, faults = []\<rparr>)"
proof -
  have f3: "extractor_fails env_down ''hello''"
    by (simp add: extractor_fails_def env_down_def timeout_error_def)
  have h3: "entries (parseGrades ''hello'') = []" by code_simp
  from extraction_never_throws[of env_down "''hello''" "(0, hd (calls db_teacher))" 0
      "\<lparr>store = db_teacher, faults = []\<rparr>"] f3 h3
  have p3: "teacher_grades env_down ''hello'' (0, hd (calls db_teacher)) 0 \<lparr>store = db_teacher, faults = []\<rparr> =
     (Inr None, \<lparr>store = db_teacher, faults = []\<rparr>)" by blast
  have f1: "extractor_fails env_down alice"
    by (simp add: extractor_fails_def env_down_def timeout_error_def)
  have f2: "extractor_fails env_prose alice"
    by (simp add: extractor_fails_def env_prose_def env_down_def completion_content_def)
  have t: "alice \<noteq> [] \<and> trim alice \<noteq> []" by code_simp
  have e1: "extractGradesWithOpenAI env_down alice =
     Inr (empty_result\<lparr>assistantReply :=
            Some ''I am having trouble parsing that right now. Could you repeat?''\<rparr>)"
    using t by (simp add: extractGradesWithOpenAI_def extract_try_def env_down_def)
  have e2: "extractGradesWithOpenAI env_prose alice =
     Inr (empty_result\<lparr>assistantReply :=
            Some ''I had trouble extracting structured grades. Could you rephrase?''\<rparr>)"
    using t by (simp add: extractGradesWithOpenAI_def extract_try_def env_prose_def env_down_def
        completion_content_def)
  from extraction_never_throws[of env_down alice] f1
  have p1: "extraction_pipeline env_down alice = Inr (adapt_parsed (parseGrades alice))" by blast
  from extraction_never_throws[of env_prose alice] f2
  have p2: "extraction_pipeline env_prose alice = Inr (adapt_parsed (parseGrades alice))" by blast
  from f1 f2 e1 e2 p1 p2 f3 h3 p3 show ?thesis by blast
qed

text \<open>
  C6, as the claim states it, fails: on a timeout the engine has already stored the
  utterance. Here the conversation of call 0 is empty, the completion call times out, and
  \<open>getAIResponse\<close> returns the fixed reply and leaves one user message behind.
\<close>

theorem timeout_persists_user_message:
  "getAIResponse env_down ''hello'' 0 s_caller =
     (Inr timeout_reply,
      \<lparr>store = db_caller\<lparr>messages := [\<lparr>m_conversationId = 0, m_role = ''user'', m_content = ''hello''\<rparr>]\<rparr>,
       faults = []\<rparr>) \<and>
   messages (store s_caller) = []"
  by code_simp

text \<open>
  C6, amended. When the completion call times out (and the call and its conversation are
  found), \<open>getAIResponse\<close> returns the fixed reply ``taking a bit longer'' with the
  escalation flag false and an empty reason. It stores no assistant message: the store is
  left as it was, or, when the conversation held no user message with this content, with
  exactly that user message appended.
\<close>

theorem timeout_fallback:
  \<open>cohere_chat ev u (chatHistory (filter (\<lambda>m. m_conversationId m = cv) (messages (store s))))
      (chat_preamble u) = Inl timeout_error \<and>
   row_at (calls (store s)) callId = Some (callId, c) \<and> c_conversation c = Some cv \<and>
   \<not> prefix [True] (faults s) \<longrightarrow>
   fst (getAIResponse ev u callId s) =
     Inr \<lparr>response = ''I'm taking a bit longer to respond. Please hold on.'',
          needsEscalation = False, escalationReason = []\<rparr> \<and>
   (store (snd (getAIResponse ev u callId s)) = store s \<or>
    (findFirst (\<lambda>m. m_conversationId m = cv \<and> m_role m = ''user'' \<and> m_content m = u)
       (messages (store s)) = None \<and>
     store (snd (getAIResponse ev u callId s)) =
       (store s)\<lparr>messages := messages (store s) @
          [\<lparr>m_conversationId = cv, m_role = ''user'', m_content = u\<rparr>]\<rparr>))\<close>
  using getAIResponse_timeout[of ev u cv s callId c] by (simp add: timeout_reply_def)

theorem timeout_fallback_witness:
  \<open>cohere_chat env_down ''hello''
      (chatHistory (filter (\<lambda>m. m_conversationId m = 0) (messages (store s_caller))))
      (chat_preamble ''hello'') = Inl timeout_error \<and>
   row_at (calls (store s_caller)) 0 = Some (0, hd (calls db_caller)) \<and>
   c_conversation (hd (calls db_caller)) = Some 0 \<and>
   \<not> prefix [True] (faults s_caller) \<and>
   fst (getAIResponse env_down ''hello'' 0 s_caller) =
     Inr \<lparr>response = ''I'm taking a bit longer to respond. Please hold on.'',
          needsEscalation = False, escalationReason = []\<rparr>\<close>
proof -
  have h: "cohere_chat env_down ''hello''
      (chatHistory (filter (\<lambda>m. m_conversationId m = 0) (messages (store s_caller))))
      (chat_preamble ''hello'') = Inl timeout_error \<and>
   row_at (calls (store s_caller)) 0 = Some (0, hd (calls db_caller)) \<and>
   c_conversation (hd (calls db_caller)) = Some 0 \<and>
   \<not> prefix [True] (faults s_caller)"
    by (simp add: env_down_def s_caller_def db_caller_def row_at_def)
  with timeout_fallback[of env_down "''hello''" 0 s_caller 0 "hd (calls db_caller)"]
  show ?thesis by blast
qed

text \<open>
  C1. Whatever the event, the services and the storage layer do, \<open>POST\<close> answers
  with status 200; the body is empty only for a terminal status update, and an error that
  reaches the outer \<open>catch\<close> is not propagated: the response is then \<open>errorXml\<close>,
  whose one verb speaks of technical difficulties (so when the first storage operation of
  a terminal event fails), and when the completion service times out the caller still
  gets a voice-response document. A body that is not empty is sent as
  XML and is a voice-response document, with one exception: the teacher's path and the
  escalation step put their text between the tags as it is, where the conversational path
  first removes the characters that break the document. For the extractor output
  \<open>markup_raw\<close> the document returned to the teacher cannot be read as XML and holds no
  verb at all, while the same document around an ordinary confirmation, and the
  conversational document around the same reply, are read as a spoken line with a
  directive to listen again.
\<close>

theorem teacher_document_unreadable:
  \<open>acceptable f (fst (POST ev f d)) \<and>
   (fst (POST ev f d) = xml_response errorXml \<or>
    (\<exists>r s'. handle ev f \<lparr>store = d, faults = storage_faults ev\<rparr> = (Inr r, s') \<and>
            fst (POST ev f d) = r)) \<and>
   parse_twiml errorXml =
     Some [Say ''I'm sorry, I'm experiencing technical difficulties. Please try calling again later.''] \<and>
   voice_document errorXml \<and>
   fst (POST env_broken hangup db_caller) = xml_response errorXml \<and>
   voice_document (r_body (fst (POST env_down feeling db_caller))) \<and>
   fst (POST env_markup dictation db_teacher) = xml_response (teacher_xml markup_reply) \<and>
   r_status (fst (POST env_markup dictation db_teacher)) = 200 \<and>
   parse_twiml (r_body (fst (POST env_markup dictation db_teacher))) = None \<and>
   \<not> voice_document (r_body (fst (POST env_markup dictation db_teacher))) \<and>
   parse_twiml (teacher_xml ''Saved 1 grade(s).'') =
     Some [Say ''Saved 1 grade(s).'',
           Gather [Say ''Please speak the next entries after the beep.''],
           Say ''Thank you. Goodbye.''] \<and>
   voice_document (teacher_xml ''Saved 1 grade(s).'') \<and>
   parse_twiml (conversation_xml (clean markup_reply)) =
     Some [Gather [Say ''Noted Tom  more'', Say ''What would you like to talk about next?''],
           Say ''Thank you for calling. Take care of yourself.''] \<and>
   voice_document (conversation_xml (clean markup_reply))\<close>
proof -
  have 1: "acceptable f (fst (POST ev f d))" by (rule POST_acceptable)
  have 2: "fst (POST ev f d) = xml_response errorXml \<or>
    (\<exists>r s'. handle ev f \<lparr>store = d, faults = storage_faults ev\<rparr> = (Inr r, s') \<and>
            fst (POST ev f d) = r)"
    by (auto simp: POST_def split: prod.splits sum.splits)
  have 3: \<open>parse_twiml errorXml =
     Some [Say ''I'm sorry, I'm experiencing technical difficulties. Please try calling again later.'']\<close>
    by code_simp
  have 4: "voice_document errorXml" by (rule voice_constants)
  have e4: "fst (POST env_broken hangup db_caller) = xml_response errorXml" by code_simp
  have e5: "voice_document (r_body (fst (POST env_down feeling db_caller)))" by code_simp
  have 5: "fst (POST env_markup dictation db_teacher) = xml_response (teacher_xml markup_reply)"
    by code_simp
  have 6: "parse_twiml (teacher_xml markup_reply) = None" by code_simp
  have 7: "parse_twiml (teacher_xml ''Saved 1 grade(s).'') =
     Some [Say ''Saved 1 grade(s).'',
           Gather [Say ''Please speak the next entries after the beep.''],
           Say ''Thank you. Goodbye.'']"
    by code_simp
  have 8: "parse_twiml (conversation_xml (clean markup_reply)) =
     Some [Gather [Say ''Noted Tom  more'', Say ''What would you like to talk about next?''],
           Say ''Thank you for calling. Take care of yourself.'']"
    by code_simp
  have 9: "voice_document (teacher_xml ''Saved 1 grade(s).'')"
    by (rule voice_teacher) (simp add: plain_def blank_def xml_space_def)
  have 10: "voice_document (conversation_xml (clean markup_reply))"
    unfolding voice_document_def 8 by code_simp
  from 5 6 have 11: "parse_twiml (r_body (fst (POST env_markup dictation db_teacher))) = None"
    "\<not> voice_document (r_body (fst (POST env_markup dictation db_teacher)))"
    "r_status (fst (POST env_markup dictation db_teacher)) = 200"
    by (simp_all add: xml_response_def voice_document_def)
  from 1 2 3 4 e4 e5 5 7 8 9 10 11 show ?thesis by blast
qed



text \<open>
  C4, as the claim states it, fails: the call \<open>CA1\<close> is completed, an utterance that
  asks for a therapist arrives for it, a counselor is available, and the escalation step
  sets the status of the call to \<open>counselor_assigned\<close>.
\<close>

theorem completed_call_reopened:
  "c_status (calls db_done ! 0) = ''completed'' \<and>
   c_status (calls (snd (POST env_up late_utterance db_done)) ! 0) = ''counselor_assigned''"
  by code_simp

text \<open>
  C4, amended. A completed call keeps its row and its gateway identifier, and after any one
  event its status is still completed unless the event is an utterance event for this very
  call whose utterance asks for escalation; then the status is completed or
  \<open>counselor_assigned\<close>. Over a sequence of events none of which is such an utterance
  event, the call stays completed. This holds whatever the services and the storage layer
  do.
\<close>

theorem completed_unless_escalated:
  "i < length (calls d) \<and> c_status (calls d ! i) = ''completed'' \<longrightarrow>
     i < length (calls (snd (POST ev f d))) \<and>
     c_twilioCallSid (calls (snd (POST ev f d)) ! i) = c_twilioCallSid (calls d ! i) \<and>
     (c_status (calls (snd (POST ev f d)) ! i) = ''completed'' \<or>
      (c_status (calls (snd (POST ev f d)) ! i) = ''counselor_assigned'' \<and>
       escalating_for (c_twilioCallSid (calls d ! i)) f)) \<and>
     ((\<forall>(ev', f') \<in> set evs. \<not> escalating_for (c_twilioCallSid (calls d ! i)) f') \<longrightarrow>
        i < length (calls (run evs d)) \<and> c_status (calls (run evs d) ! i) = ''completed'')"
proof (intro impI)
  assume a: "i < length (calls d) \<and> c_status (calls d ! i) = ''completed''"
  let ?sid = "c_twilioCallSid (calls d ! i)" and ?d' = "snd (POST ev f d)"
  from a have j: "done_inv i ?sid d" by (simp add: done_inv_def)
  from doa_POST[OF j] have 1: "done_or_assigned i ?sid ?d'" .
  have 2: "c_status (calls ?d' ! i) = ''completed''" if "\<not> escalating_for ?sid f"
    using done_POST[OF j that] by (simp add: done_inv_def)
  have 3: "i < length (calls (run evs d)) \<and> c_status (calls (run evs d) ! i) = ''completed''"
    if "\<forall>(ev', f') \<in> set evs. \<not> escalating_for ?sid f'"
    using done_run[OF j that] by (simp add: done_inv_def)
  from 1 2 3 show "i < length (calls ?d') \<and>
     c_twilioCallSid (calls ?d' ! i) = ?sid \<and>
     (c_status (calls ?d' ! i) = ''completed'' \<or>
      (c_status (calls ?d' ! i) = ''counselor_assigned'' \<and> escalating_for ?sid f)) \<and>
     ((\<forall>(ev', f') \<in> set evs. \<not> escalating_for ?sid f') \<longrightarrow>
        i < length (calls (run evs d)) \<and> c_status (calls (run evs d) ! i) = ''completed'')"
    by (auto simp: done_or_assigned_def)
qed

theorem completed_unless_escalated_witness:
  "0 < length (calls db_done) \<and> c_status (calls db_done ! 0) = ''completed'' \<and>
   \<not> escalating_for (c_twilioCallSid (calls db_done ! 0)) hangup \<and>
   \<not> escalating_for (c_twilioCallSid (calls db_done ! 0)) feeling \<and>
   c_status (calls (run [(env_up, hangup), (env_up, feeling)] db_done) ! 0) = ''completed'' \<and>
   c_status (calls (snd (POST env_up hangup db_done)) ! 0) = ''completed''"
proof -
  have h1: "0 < length (calls db_done) \<and> c_status (calls db_done ! 0) = ''completed''"
    by (simp add: db_done_def db_caller_def)
  have h2: "\<forall>(ev', f') \<in> set [(env_up, hangup), (env_up, feeling)].
       \<not> escalating_for (c_twilioCallSid (calls db_done ! 0)) f'"
    by code_simp
  have h3: "\<not> escalating_for (c_twilioCallSid (calls db_done ! 0)) hangup"
    by code_simp
  from completed_unless_escalated[of 0 db_done env_up hangup "[(env_up, hangup), (env_up, feeling)]"]
    h1 h2 h3
  have "c_status (calls (run [(env_up, hangup), (env_up, feeling)] db_done) ! 0) = ''completed'' \<and>
        c_status (calls (snd (POST env_up hangup db_done)) ! 0) = ''completed''"
    by blast
  moreover have "\<not> escalating_for (c_twilioCallSid (calls db_done ! 0)) feeling"
    using h2 by simp
  ultimately show ?thesis using h1 h3 by blast
qed

text \<open>
  C2, as the code has it. The status update writes the call and then the counselor, in
  two storage operations. Here the call \<open>CA1\<close> is assigned to the counselor 1, who is
  busy, and the third storage operation of the terminal event fails: the response is the
  document about technical difficulties and not the empty body, the call is completed and
  the counselor is still busy. A second delivery of the event, with the storage layer
  working, finds the call completed and changes nothing: the counselor stays busy.
\<close>

theorem release_failure_leaves_counselor_busy:
  "CallStatus hangup = Some ''completed'' \<and> CallSid hangup = c_twilioCallSid call_assigned \<and>
   calls db_assigned = [call_assigned] \<and> c_status call_assigned = ''counselor_assigned'' \<and>
   c_assignedCounselorId call_assigned = Some 1 \<and> u_status (users db_assigned ! 1) = ''busy'' \<and>
   storage_faults env_release_fails = [False, False, True] \<and>
   fst (POST env_release_fails hangup db_assigned) = xml_response errorXml \<and>
   r_body (fst (POST env_release_fails hangup db_assigned)) \<noteq> [] \<and>
   c_status (calls (snd (POST env_release_fails hangup db_assigned)) ! 0) = ''completed'' \<and>
   u_status (users (snd (POST env_release_fails hangup db_assigned)) ! 1) = ''busy'' \<and>
   POST env_down hangup (snd (POST env_release_fails hangup db_assigned)) =
     (empty_response, snd (POST env_release_fails hangup db_assigned)) \<and>
   u_status (users (snd (POST env_down hangup
               (snd (POST env_release_fails hangup db_assigned)))) ! 1) = ''busy''"
proof -
  let ?d1 = "snd (POST env_release_fails hangup db_assigned)"
  have 1: "CallStatus hangup = Some ''completed'' \<and>
           CallSid hangup = c_twilioCallSid call_assigned \<and>
           calls db_assigned = [call_assigned] \<and>
           c_status call_assigned = ''counselor_assigned'' \<and>
           c_assignedCounselorId call_assigned = Some 1 \<and>
           u_status (users db_assigned ! 1) = ''busy''"
    by (simp add: hangup_def call_assigned_def db_assigned_def db_caller_def)
  have 2: "storage_faults env_release_fails = [False, False, True]"
    by (simp add: env_release_fails_def)
  have 3: "fst (POST env_release_fails hangup db_assigned) = xml_response errorXml" by code_simp
  have 4: "r_body (fst (POST env_release_fails hangup db_assigned)) \<noteq> []" by code_simp
  have 5: "c_status (calls ?d1 ! 0) = ''completed'' \<and> u_status (users ?d1 ! 1) = ''busy''"
    by code_simp
  have 6: "POST env_down hangup ?d1 = (empty_response, ?d1)" by code_simp
  from 5 6 have 7: "u_status (users (snd (POST env_down hangup ?d1)) ! 1) = ''busy''" by simp
  from 1 2 3 4 5 6 7 show ?thesis by blast
qed

text \<open>
  C2, amended. When no storage operation fails, an event whose status is one of
  completed, busy, no-answer, failed and canceled, for a call that exists and is not
  completed, returns the empty response and leaves the store with the call completed, its
  end time stamped and its counselor, if any, available. An event with one of these
  statuses for the same call that is delivered afterwards leaves the store as it is,
  whatever the storage layer does, and returns the empty response when the storage layer
  works.
\<close>

theorem terminal_event_completes:
  "CallStatus f = Some st \<and>
   st \<in> {''completed'', ''busy'', ''no-answer'', ''failed'', ''canceled''} \<and>
   storage_faults ev = [] \<and>
   findFirst (\<lambda>r. c_twilioCallSid r = CallSid f) (calls d) = Some (i, c) \<and>
   c_status c \<noteq> ''completed'' \<and>
   (\<forall>k. c_assignedCounselorId c = Some k \<longrightarrow> k < length (users d)) \<longrightarrow>
     POST ev f d = (empty_response, completed_store ev i c d) \<and>
     r_body (fst (POST ev f d)) = [] \<and>
     c_status (calls (completed_store ev i c d) ! i) = ''completed'' \<and>
     c_endedAt (calls (completed_store ev i c d) ! i) = Some (now ev) \<and>
     (\<forall>k. c_assignedCounselorId c = Some k \<longrightarrow>
          u_status (users (completed_store ev i c d) ! k) = ''available'') \<and>
     (CallStatus f' = Some st' \<and>
      st' \<in> {''completed'', ''busy'', ''no-answer'', ''failed'', ''canceled''} \<and>
      CallSid f' = CallSid f \<longrightarrow>
        snd (POST ev' f' (completed_store ev i c d)) = completed_store ev i c d \<and>
        (storage_faults ev' = [] \<longrightarrow>
           POST ev' f' (completed_store ev i c d) = (empty_response, completed_store ev i c d)))"
proof (intro impI)
  assume a: "CallStatus f = Some st \<and>
   st \<in> {''completed'', ''busy'', ''no-answer'', ''failed'', ''canceled''} \<and>
   storage_faults ev = [] \<and>
   findFirst (\<lambda>r. c_twilioCallSid r = CallSid f) (calls d) = Some (i, c) \<and>
   c_status c \<noteq> ''completed'' \<and>
   (\<forall>k. c_assignedCounselorId c = Some k \<longrightarrow> k < length (users d))"
  let ?d' = "completed_store ev i c d"
  let ?c' = "c\<lparr>c_status := ''completed'', c_endedAt := Some (now ev)\<rparr>"
  from a have t: "is_terminal f" by (auto simp: is_terminal_def terminal_statuses_def)
  from a findFirst_Some[of _ "calls d" i c] have i: "i < length (calls d)" "calls d ! i = c"
    and sid: "c_twilioCallSid c = CallSid f" by auto
  from a t have 1: "POST ev f d = (empty_response, ?d')"
    by (simp add: POST_def handle_def status_update_nofault)
  then have e1: "r_body (fst (POST ev f d)) = []" by (simp add: empty_response_def)
  have calls': "calls ?d' = (calls d)[i := ?c']" by (simp add: completed_store_def)
  from i calls' have 2: "c_status (calls ?d' ! i) = ''completed''"
    "c_endedAt (calls ?d' ! i) = Some (now ev)" by simp_all
  from a have 3: "\<forall>k. c_assignedCounselorId c = Some k \<longrightarrow> u_status (users ?d' ! k) = ''available''"
    by (auto simp: completed_store_def)
  have 4: "snd (POST ev' f' ?d') = ?d' \<and>
           (storage_faults ev' = [] \<longrightarrow> POST ev' f' ?d' = (empty_response, ?d'))"
    if b: "CallStatus f' = Some st' \<and>
      st' \<in> {''completed'', ''busy'', ''no-answer'', ''failed'', ''canceled''} \<and>
      CallSid f' = CallSid f"
  proof -
    from b have t': "is_terminal f'" by (auto simp: is_terminal_def terminal_statuses_def)
    from a sid have "findFirst (\<lambda>r. c_twilioCallSid r = CallSid f) (calls ?d') = Some (i, ?c')"
      unfolding calls' by (intro findFirst_update[of _ _ _ c]) simp_all
    with b have found: "findFirst (\<lambda>r. c_twilioCallSid r = CallSid f') (calls ?d') = Some (i, ?c')"
      by simp
    from terminal_again[OF t' found, of ev'] have "snd (POST ev' f' ?d') = ?d'" by simp
    moreover from status_update_again[OF found, of ev'] t'
    have "storage_faults ev' = [] \<longrightarrow> POST ev' f' ?d' = (empty_response, ?d')"
      by (simp add: POST_def handle_def)
    ultimately show ?thesis by blast
  qed
  from 1 e1 2 3 4 show "POST ev f d = (empty_response, ?d') \<and>
     r_body (fst (POST ev f d)) = [] \<and>
     c_status (calls ?d' ! i) = ''completed'' \<and>
     c_endedAt (calls ?d' ! i) = Some (now ev) \<and>
     (\<forall>k. c_assignedCounselorId c = Some k \<longrightarrow> u_status (users ?d' ! k) = ''available'') \<and>
     (CallStatus f' = Some st' \<and>
      st' \<in> {''completed'', ''busy'', ''no-answer'', ''failed'', ''canceled''} \<and>
      CallSid f' = CallSid f \<longrightarrow>
        snd (POST ev' f' ?d') = ?d' \<and>
        (storage_faults ev' = [] \<longrightarrow> POST ev' f' ?d' = (empty_response, ?d')))"
    by blast
qed

theorem terminal_event_completes_witness:
  "CallStatus no_answer = Some ''no-answer'' \<and> storage_faults env_down = [] \<and>
   findFirst (\<lambda>r. c_twilioCallSid r = CallSid no_answer) (calls db_assigned) =
     Some (0, call_assigned) \<and>
   c_status call_assigned \<noteq> ''completed'' \<and>
   c_assignedCounselorId call_assigned = Some 1 \<and> 1 < length (users db_assigned) \<and>
   u_status (users db_assigned ! 1) = ''busy'' \<and>
   POST env_down no_answer db_assigned =
     (empty_response, completed_store env_down 0 call_assigned db_assigned) \<and>
   r_body (fst (POST env_down no_answer db_assigned)) = [] \<and>
   c_status (calls (completed_store env_down 0 call_assigned db_assigned) ! 0) = ''completed'' \<and>
   c_endedAt (calls (completed_store env_down 0 call_assigned db_assigned) ! 0) = Some (now env_down) \<and>
   u_status (users (completed_store env_down 0 call_assigned db_assigned) ! 1) = ''available'' \<and>
   CallStatus hangup = Some ''completed'' \<and> CallSid hangup = CallSid no_answer \<and>
   storage_faults env_broken = [True] \<and>
   snd (POST env_broken hangup (completed_store env_down 0 call_assigned db_assigned)) =
     completed_store env_down 0 call_assigned db_assigned \<and>
   POST env_down hangup (completed_store env_down 0 call_assigned db_assigned) =
     (empty_response, completed_store env_down 0 call_assigned db_assigned)"
proof -
  let ?D = "completed_store env_down 0 call_assigned db_assigned"
  have h1: "CallStatus no_answer = Some ''no-answer''" by (simp add: no_answer_def)
  have h2: "''no-answer'' \<in> {''completed'', ''busy'', ''no-answer'', ''failed'', ''canceled''}"
    by simp
  have h3: "storage_faults env_down = []" by (simp add: env_down_def)
  have h4: "findFirst (\<lambda>r. c_twilioCallSid r = CallSid no_answer) (calls db_assigned) =
     Some (0, call_assigned)"
    by (simp add: no_answer_def hangup_def findFirst_def db_assigned_def call_assigned_def)
  have h5: "c_status call_assigned \<noteq> ''completed''" by (simp add: call_assigned_def)
  have c: "c_assignedCounselorId call_assigned = Some 1" by (simp add: call_assigned_def)
  have l: "1 < length (users db_assigned)" "u_status (users db_assigned ! 1) = ''busy''"
    by (simp_all add: db_assigned_def)
  from c l have h6: "\<forall>k. c_assignedCounselorId call_assigned = Some k \<longrightarrow> k < length (users db_assigned)"
    by simp
  have g1: "CallStatus hangup = Some ''completed''" by (simp add: hangup_def)
  have g2: "''completed'' \<in> {''completed'', ''busy'', ''no-answer'', ''failed'', ''canceled''}"
    by simp
  have g3: "CallSid hangup = CallSid no_answer" by (simp add: no_answer_def)
  have g4: "storage_faults env_broken = [True]" by (simp add: env_broken_def)
  from terminal_event_completes[of no_answer "''no-answer''" env_down db_assigned 0 call_assigned
      hangup "''completed''" env_broken] h1 h2 h3 h4 h5 h6 g1 g2 g3 c
  have r1: "POST env_down no_answer db_assigned = (empty_response, ?D) \<and>
        r_body (fst (POST env_down no_answer db_assigned)) = [] \<and>
        c_status (calls ?D ! 0) = ''completed'' \<and>
        c_endedAt (calls ?D ! 0) = Some (now env_down) \<and>
        u_status (users ?D ! 1) = ''available'' \<and>
        snd (POST env_broken hangup ?D) = ?D"
    by blast
  from terminal_event_completes[of no_answer "''no-answer''" env_down db_assigned 0 call_assigned
      hangup "''completed''" env_down] h1 h2 h3 h4 h5 h6 g1 g2 g3
  have r2: "POST env_down hangup ?D = (empty_response, ?D)"
    by blast
  from h1 h3 h4 h5 c l r1 g1 g3 g4 r2 show ?thesis by blast
qed

text \<open>
  C10. On the teacher's path the spoken reply goes into the document as it is. When the
  storage layer works and the pipeline returns entries, \<open>teacher_grades\<close> answers with
  \<open>teacher_xml\<close> of the spoken reply, which is the extractor's \<open>assistantReply\<close> when
  that is not empty, and \<open>teacher_xml t\<close> contains \<open>t\<close> unchanged between the tags of
  its first \<open>Say\<close>. The conversational path embeds \<open>clean\<close> of the reply (or the
  default sentence), and \<open>clean\<close> leaves none of the five characters. For the extractor
  output \<open>markup_raw\<close>, \<open>POST\<close> returns a document that contains \<open><Tom> & more\<close>.
\<close>

theorem teacher_reply_unescaped:
  \<open>(faults s = [] \<and> fst call < length (calls (store s)) \<and>
    extraction_pipeline ev sp = Inr pr \<and> entries pr \<noteq> [] \<longrightarrow>
      (\<exists>n s'. teacher_grades ev sp call tid s =
         (Inr (Some (xml_response (teacher_xml (speak_reply pr (confirm_text pr n))))), s'))) \<and>
   (assistantReply pr = Some reply \<and> reply \<noteq> [] \<longrightarrow> speak_reply pr ct = reply) \<and>
   str_includes (teacher_xml t) (''<Say voice="alice">'' @ t @ ''</Say>'') \<and>
   (converse ev sp call s = (Inr r, s'') \<longrightarrow>
      (\<exists>p. r = xml_response (dial_xml p)) \<or> r = xml_response no_counselor_xml \<or>
      (\<exists>x. r = xml_response (conversation_xml
              (if clean x = [] then ''I'm here to listen. How are you feeling?'' else clean x)))) \<and>
   set (clean x) \<inter> {CHR ''<'', CHR ''>'', CHR ''&'', CHR 0x27, CHR 0x22} = {} \<and>
   fst (POST env_markup dictation db_teacher) = xml_response (teacher_xml markup_reply) \<and>
   str_includes (r_body (fst (POST env_markup dictation db_teacher))) ''<Tom> & more''\<close>
proof -
  have 1: "faults s = [] \<and> fst call < length (calls (store s)) \<and>
    extraction_pipeline ev sp = Inr pr \<and> entries pr \<noteq> [] \<longrightarrow>
      (\<exists>n s'. teacher_grades ev sp call tid s =
         (Inr (Some (xml_response (teacher_xml (speak_reply pr (confirm_text pr n))))), s'))"
    using teacher_grades_nofault[of s call ev sp pr tid] by blast
  have 2: "assistantReply pr = Some reply \<and> reply \<noteq> [] \<longrightarrow> speak_reply pr ct = reply"
    by (simp add: speak_reply_def truthy_def)
  have 4: \<open>converse ev sp call s = (Inr r, s'') \<longrightarrow>
      (\<exists>p. r = xml_response (dial_xml p)) \<or> r = xml_response no_counselor_xml \<or>
      (\<exists>x. r = xml_response (conversation_xml
              (if clean x = [] then ''I'm here to listen. How are you feeling?'' else clean x)))\<close>
    using returns_converse_doc[of ev sp call] unfolding returns_def by blast
  have 6: "fst (POST env_markup dictation db_teacher) = xml_response (teacher_xml markup_reply)"
    by code_simp
  have 7: "str_includes (teacher_xml markup_reply) ''<Tom> & more''" by code_simp
  from 1 2 teacher_xml_verbatim[of t] 4 clean_strips[of x] 6 7 show ?thesis
    by (simp add: xml_response_def)
qed

theorem teacher_reply_unescaped_witness:
  "faults \<lparr>store = db_teacher, faults = []\<rparr> = [] \<and>
   fst (0 :: nat, hd (calls db_teacher)) < length (calls (store \<lparr>store = db_teacher, faults = []\<rparr>)) \<and>
   extraction_pipeline env_markup alice = Inr markup_result \<and> entries markup_result \<noteq> [] \<and>
   assistantReply markup_result = Some markup_reply \<and> markup_reply \<noteq> [] \<and>
   (\<exists>s'. teacher_grades env_markup alice (0, hd (calls db_teacher)) 0 \<lparr>store = db_teacher, faults = []\<rparr> =
       (Inr (Some (xml_response (teacher_xml markup_reply))), s')) \<and>
   CHR ''<'' \<in> set markup_reply"
proof -
  have h1: "faults \<lparr>store = db_teacher, faults = []\<rparr> = [] \<and>
     fst (0 :: nat, hd (calls db_teacher)) < length (calls (store \<lparr>store = db_teacher, faults = []\<rparr>))"
    by (simp add: db_teacher_def)
  have h2: "extraction_pipeline env_markup alice = Inr markup_result" by code_simp
  have h3: "entries markup_result \<noteq> [] \<and> assistantReply markup_result = Some markup_reply \<and>
      markup_reply \<noteq> [] \<and> CHR ''<'' \<in> set markup_reply"
    by (simp add: markup_result_def markup_reply_def)
  from teacher_reply_unescaped[of "\<lparr>store = db_teacher, faults = []\<rparr>" "(0, hd (calls db_teacher))"
      env_markup alice markup_result 0 markup_reply] h1 h2 h3
  have a: "\<exists>n s'. teacher_grades env_markup alice (0, hd (calls db_teacher)) 0 \<lparr>store = db_teacher, faults = []\<rparr> =
         (Inr (Some (xml_response (teacher_xml (speak_reply markup_result (confirm_text markup_result n))))), s')"
    by blast
  from teacher_reply_unescaped[of _ _ _ _ markup_result _ markup_reply] h3
  have b: "speak_reply markup_result ct = markup_reply" for ct by blast
  from a b have "\<exists>s'. teacher_grades env_markup alice (0, hd (calls db_teacher)) 0 \<lparr>store = db_teacher, faults = []\<rparr> =
       (Inr (Some (xml_response (teacher_xml markup_reply))), s')" by auto
  with h1 h2 h3 show ?thesis by blast
qed

text \<open>
  C3, as the code has it. The escalation step writes the call and the counselor in two
  storage operations, one after the other. When the second one fails, the call is assigned
  and the counselor is still available: the next escalating call gets the same counselor.
  Here the two calls \<open>CA1\<close> and \<open>CA2\<close> are opened on a store without calls; the update
  of the counselor fails during the utterance on \<open>CA1\<close>, whose caller hears the error
  document; the utterance on \<open>CA2\<close> is handled without failure and its caller is
  dialled through. Both calls are then open and assigned to the counselor 0.
\<close>

theorem counselor_shared_after_failure:
  "calls db_pool = [] \<and>
   run [(env_up, first_ring), (env_up, second_ring)] db_pool = db_two \<and>
   storage_faults env_flaky = replicate 11 False @ [True] \<and>
   fst (POST env_flaky first_cry db_two) = xml_response speech_error_xml \<and>
   fst (POST env_up second_cry (snd (POST env_flaky first_cry db_two))) =
     xml_response (dial_xml ''+15550002222'') \<and>
   assigned_open (run [(env_up, first_ring), (env_up, second_ring),
                       (env_flaky, first_cry), (env_up, second_cry)] db_pool) 0 0 \<and>
   assigned_open (run [(env_up, first_ring), (env_up, second_ring),
                       (env_flaky, first_cry), (env_up, second_cry)] db_pool) 0 1 \<and>
   \<not> exclusive (run [(env_up, first_ring), (env_up, second_ring),
                      (env_flaky, first_cry), (env_up, second_cry)] db_pool)"
proof -
  let ?d = "run [(env_up, first_ring), (env_up, second_ring),
                 (env_flaky, first_cry), (env_up, second_cry)] db_pool"
  have 1: "calls db_pool = []" by (simp add: db_pool_def)
  have 2: "run [(env_up, first_ring), (env_up, second_ring)] db_pool = db_two" by code_simp
  have 3: "storage_faults env_flaky = replicate 11 False @ [True]" by (simp add: env_flaky_def)
  have 4: "fst (POST env_flaky first_cry db_two) = xml_response speech_error_xml" by code_simp
  have 5: "fst (POST env_up second_cry (snd (POST env_flaky first_cry db_two))) =
             xml_response (dial_xml ''+15550002222'')" by code_simp
  have 6: "assigned_open ?d 0 0 \<and> assigned_open ?d 0 1" by code_simp
  then have "\<not> exclusive ?d" unfolding exclusive_def by (metis zero_neq_one)
  with 1 2 3 4 5 6 show ?thesis by blast
qed

text \<open>
  C3, amended. A store without calls satisfies \<open>pool_inv\<close>, and \<open>POST\<close> maintains it
  over every sequence of events during which no storage operation fails: in every such
  state no counselor is assigned to two open calls. When the storage layer works, the
  escalation step returns the no-counselor document and leaves the store as it is if
  \<open>findAvailableCounselor\<close> finds no row; otherwise the row it finds has the status
  available, the call is assigned to that counselor, the counselor is busy afterwards,
  and the response dials the counselor. With exactly one available counselor \<open>k'\<close> and
  two escalating turns for two calls, the first response dials the counselor and the
  first call is assigned to \<open>k'\<close>; the second response is the no-counselor document and
  the second call is as it was.
\<close>

theorem counselor_exclusive_without_faults:
  "(calls d0 = [] \<longrightarrow> pool_inv d0) \<and>
   (pool_inv d \<and> (\<forall>(ev, f) \<in> set evs. storage_faults ev = []) \<longrightarrow>
      pool_inv (run evs d) \<and> exclusive (run evs d)) \<and>
   (faults s = [] \<and> fst call < length (calls (store s)) \<longrightarrow>
      (case findFirst available_counselor (users (store s)) of
         None \<Rightarrow> escalate call ai s = (Inr (xml_response no_counselor_xml), s)
       | Some (k, u) \<Rightarrow>
           u_status u = ''available'' \<and> users (store s) ! k = u \<and>
           (\<exists>s'. escalate call ai s = (Inr (xml_response (dial_xml (u_phone u))), s') \<and>
                 calls (store s') = assign (fst call) k (store s) \<and>
                 users (store s') = reserve k (store s) \<and>
                 c_assignedCounselorId (calls (store s') ! fst call) = Some k \<and>
                 u_status (users (store s') ! k) = ''busy''))) \<and>
   (escalating_turn ev1 f1 d' i1 \<and> escalating_turn ev2 f2 (snd (POST ev1 f1 d')) i2 \<and>
    i1 \<noteq> i2 \<and> available_counselors d' = [k'] \<longrightarrow>
      fst (POST ev1 f1 d') = xml_response (dial_xml (u_phone (users d' ! k'))) \<and>
      fst (POST ev2 f2 (snd (POST ev1 f1 d'))) = xml_response no_counselor_xml \<and>
      c_assignedCounselorId (calls (run [(ev1, f1), (ev2, f2)] d') ! i1) = Some k' \<and>
      calls (run [(ev1, f1), (ev2, f2)] d') ! i2 = calls d' ! i2 \<and>
      u_status (users (run [(ev1, f1), (ev2, f2)] d') ! k') = ''busy'')"
proof (intro conjI impI)
  assume "calls d0 = []"
  then show "pool_inv d0" by (rule pool_init)
next
  assume a: "pool_inv d \<and> (\<forall>(ev, f) \<in> set evs. storage_faults ev = [])"
  then show p: "pool_inv (run evs d)" by (auto intro: pool_run)
  then show "exclusive (run evs d)" by (simp add: pool_inv_def)
next
  assume a: "faults s = [] \<and> fst call < length (calls (store s))"
  show "case findFirst available_counselor (users (store s)) of
         None \<Rightarrow> escalate call ai s = (Inr (xml_response no_counselor_xml), s)
       | Some (k, u) \<Rightarrow>
           u_status u = ''available'' \<and> users (store s) ! k = u \<and>
           (\<exists>s'. escalate call ai s = (Inr (xml_response (dial_xml (u_phone u))), s') \<and>
                 calls (store s') = assign (fst call) k (store s) \<and>
                 users (store s') = reserve k (store s) \<and>
                 c_assignedCounselorId (calls (store s') ! fst call) = Some k \<and>
                 u_status (users (store s') ! k) = ''busy'')"
  proof (cases "findFirst available_counselor (users (store s))")
    case None
    with escalate_nofault[of s call ai] a show ?thesis by simp
  next
    case (Some x)
    obtain k u where x: "x = (k, u)" by (cases x)
    from findFirst_Some[OF Some[unfolded x]]
    have k: "k < length (users (store s))" "users (store s) ! k = u" "available_counselor u"
      by auto
    from escalate_nofault[of s call ai] a Some x obtain s' where
      e: "escalate call ai s = (Inr (xml_response (dial_xml (u_phone u))), s')"
         "calls (store s') = assign (fst call) k (store s)"
         "users (store s') = reserve k (store s)"
      by auto
    from e(2) a have "c_assignedCounselorId (calls (store s') ! fst call) = Some k"
      by (simp add: assign_def)
    moreover from e(3) k have "u_status (users (store s') ! k) = ''busy''"
      by (simp add: reserve_def)
    ultimately show ?thesis
      using Some x k e by (simp add: available_counselor_def)
  qed
next
  assume a: "escalating_turn ev1 f1 d' i1 \<and> escalating_turn ev2 f2 (snd (POST ev1 f1 d')) i2 \<and>
    i1 \<noteq> i2 \<and> available_counselors d' = [k']"
  then have 1: "escalating_turn ev1 f1 d' i1"
    and 2: "escalating_turn ev2 f2 (snd (POST ev1 f1 d')) i2"
    and ne: "i1 \<noteq> i2" and k: "available_counselors d' = [k']"
    by auto
  note t = two_escalating_calls[OF 1 2 k ne]
  from 1 have i1: "i1 < length (calls d')"
    by (auto simp: escalating_turn_def split: option.splits dest!: findFirst_Some)
  note kk = findFirst_available(3)[OF k]
  show "fst (POST ev1 f1 d') = xml_response (dial_xml (u_phone (users d' ! k')))" by (rule t(1))
  show "fst (POST ev2 f2 (snd (POST ev1 f1 d'))) = xml_response no_counselor_xml" by (rule t(2))
  show "c_assignedCounselorId (calls (run [(ev1, f1), (ev2, f2)] d') ! i1) = Some k'"
    using t(3) i1 by (simp add: assign_def)
  show "calls (run [(ev1, f1), (ev2, f2)] d') ! i2 = calls d' ! i2"
    using t(3) ne by (simp add: assign_def)
  show "u_status (users (run [(ev1, f1), (ev2, f2)] d') ! k') = ''busy''"
    using t(4) kk by (simp add: reserve_def)
qed

theorem counselor_exclusive_without_faults_witness:
  "calls db_pool = [] \<and> pool_inv db_pool \<and> storage_faults env_up = [] \<and>
   exclusive (run [(env_up, first_ring), (env_up, second_ring),
                   (env_up, first_cry), (env_up, second_cry)] db_pool) \<and>
   faults \<lparr>store = db_two, faults = []\<rparr> = [] \<and>
   fst (0 :: nat, hd (calls db_two)) < length (calls (store \<lparr>store = db_two, faults = []\<rparr>)) \<and>
   findFirst available_counselor (users db_two) = Some (0, hd (users db_two)) \<and>
   u_status (hd (users db_two)) = ''available'' \<and>
   (\<exists>s'. escalate (0, hd (calls db_two)) crisis_reply \<lparr>store = db_two, faults = []\<rparr> =
            (Inr (xml_response (dial_xml ''+15550002222'')), s') \<and>
          c_assignedCounselorId (calls (store s') ! 0) = Some 0 \<and>
          u_status (users (store s') ! 0) = ''busy'') \<and>
   escalating_turn env_up first_cry db_two 0 \<and>
   escalating_turn env_up second_cry (snd (POST env_up first_cry db_two)) 1 \<and>
   available_counselors db_two = [0] \<and>
   fst (POST env_up first_cry db_two) = xml_response (dial_xml ''+15550002222'') \<and>
   fst (POST env_up second_cry (snd (POST env_up first_cry db_two))) =
     xml_response no_counselor_xml \<and>
   c_assignedCounselorId (calls (run [(env_up, first_cry), (env_up, second_cry)] db_two) ! 0) = Some 0 \<and>
   c_assignedCounselorId (calls (run [(env_up, first_cry), (env_up, second_cry)] db_two) ! 1) = None \<and>
   u_status (users (run [(env_up, first_cry), (env_up, second_cry)] db_two) ! 0) = ''busy''"
proof -
  let ?evs = "[(env_up, first_ring), (env_up, second_ring), (env_up, first_cry), (env_up, second_cry)]"
  let ?s = "\<lparr>store = db_two, faults = []\<rparr>"
  note th = counselor_exclusive_without_faults
  have h0: "calls db_pool = []" by (simp add: db_pool_def)
  from th[of db_pool] h0 have p: "pool_inv db_pool" by blast
  have nf: "storage_faults env_up = []" by (simp add: env_up_def env_down_def)
  then have h1: "\<forall>(ev, f) \<in> set ?evs. storage_faults ev = []" by simp
  from th[of _ db_pool ?evs] p h1 have ex: "exclusive (run ?evs db_pool)" by blast
  have h2: "faults ?s = [] \<and> fst (0 :: nat, hd (calls db_two)) < length (calls (store ?s))"
    by (simp add: db_two_def)
  have h3: "findFirst available_counselor (users db_two) = Some (0, hd (users db_two))"
    by (simp add: db_two_def findFirst_def available_counselor_def)
  have ph: "u_phone (hd (users db_two)) = ''+15550002222''" by (simp add: db_two_def)
  from th[where s = ?s and call = "(0, hd (calls db_two))" and ai = crisis_reply] h2
  have "case findFirst available_counselor (users (store ?s)) of
         None \<Rightarrow> escalate (0, hd (calls db_two)) crisis_reply ?s =
                  (Inr (xml_response no_counselor_xml), ?s)
       | Some (k, u) \<Rightarrow>
           u_status u = ''available'' \<and> users (store ?s) ! k = u \<and>
           (\<exists>s'. escalate (0, hd (calls db_two)) crisis_reply ?s =
                   (Inr (xml_response (dial_xml (u_phone u))), s') \<and>
                 calls (store s') = assign (fst (0 :: nat, hd (calls db_two))) k (store ?s) \<and>
                 users (store s') = reserve k (store ?s) \<and>
                 c_assignedCounselorId (calls (store s') ! fst (0 :: nat, hd (calls db_two))) = Some k \<and>
                 u_status (users (store s') ! k) = ''busy'')"
    by blast
  with h3 have e: "u_status (hd (users db_two)) = ''available'' \<and>
     (\<exists>s'. escalate (0, hd (calls db_two)) crisis_reply ?s =
            (Inr (xml_response (dial_xml (u_phone (hd (users db_two))))), s') \<and>
          c_assignedCounselorId (calls (store s') ! 0) = Some 0 \<and>
          u_status (users (store s') ! 0) = ''busy'')"
    by auto
  have an: "answers env_up" by (simp add: answers_def env_up_def env_down_def)
  have t1: "escalating_turn env_up first_cry db_two 0"
  proof -
    have "\<not> is_terminal first_cry" by code_simp
    moreover have "SpeechResult first_cry = Some ''I want to kill myself''"
      by (simp add: first_cry_def cry_def)
    moreover have "trim ''I want to kill myself'' \<noteq> []" by code_simp
    moreover have "needs_escalation ''I want to kill myself''" by code_simp
    moreover have "findFirst (\<lambda>c. c_twilioCallSid c = CallSid first_cry) (calls db_two) =
        Some (0, hd (calls db_two))"
      by (simp add: db_two_def findFirst_def first_cry_def cry_def)
    moreover have "c_conversation (hd (calls db_two)) = Some 0" by (simp add: db_two_def)
    moreover have "row_at (users db_two) (c_userId (hd (calls db_two))) = Some (1, users db_two ! 1)"
      by (simp add: db_two_def row_at_def)
    moreover have "u_role (users db_two ! 1) \<noteq> ''teacher''" by (simp add: db_two_def)
    ultimately show ?thesis using nf an by (simp add: escalating_turn_def)
  qed
  have d1c: "calls (snd (POST env_up first_cry db_two)) = assign 0 0 db_two"
    and d1u: "users (snd (POST env_up first_cry db_two)) = reserve 0 db_two"
    using escalating_turn_POST[OF t1] h3 by auto
  have t2: "escalating_turn env_up second_cry (snd (POST env_up first_cry db_two)) 1"
  proof -
    let ?d1 = "snd (POST env_up first_cry db_two)"
    have "\<not> is_terminal second_cry" by code_simp
    moreover have "SpeechResult second_cry = Some ''I want to kill myself''"
      by (simp add: second_cry_def cry_def)
    moreover have "trim ''I want to kill myself'' \<noteq> []" by code_simp
    moreover have "needs_escalation ''I want to kill myself''" by code_simp
    moreover have "findFirst (\<lambda>c. c_twilioCallSid c = CallSid second_cry) (calls ?d1) =
        Some (1, calls db_two ! 1)"
      unfolding d1c by (simp add: assign_def db_two_def findFirst_def second_cry_def cry_def)
    moreover have "c_conversation (calls db_two ! 1) = Some 1" by (simp add: db_two_def)
    moreover have "row_at (users ?d1) (c_userId (calls db_two ! 1)) = Some (2, users db_two ! 2)"
      unfolding d1u by (simp add: reserve_def db_two_def row_at_def)
    moreover have "u_role (users db_two ! 2) \<noteq> ''teacher''" by (simp add: db_two_def)
    ultimately show ?thesis using nf an by (simp add: escalating_turn_def)
  qed
  have av: "available_counselors db_two = [0]" by code_simp
  have ne: "(0 :: nat) \<noteq> 1" by simp
  have c1: "calls db_two ! 1 = calls db_two ! 1" ..
  from th[of _ _ _ _ _ _ env_up first_cry db_two 0 env_up second_cry 1 0] t1 t2 av ne
  have r: "fst (POST env_up first_cry db_two) = xml_response (dial_xml (u_phone (users db_two ! 0))) \<and>
      fst (POST env_up second_cry (snd (POST env_up first_cry db_two))) = xml_response no_counselor_xml \<and>
      c_assignedCounselorId (calls (run [(env_up, first_cry), (env_up, second_cry)] db_two) ! 0) = Some 0 \<and>
      calls (run [(env_up, first_cry), (env_up, second_cry)] db_two) ! 1 = calls db_two ! 1 \<and>
      u_status (users (run [(env_up, first_cry), (env_up, second_cry)] db_two) ! 0) = ''busy''"
    by blast
  have ph0: "u_phone (users db_two ! 0) = ''+15550002222''" by (simp add: db_two_def)
  have n1: "c_assignedCounselorId (calls db_two ! 1) = None" by (simp add: db_two_def)
  from r ph0 n1 have r': "fst (POST env_up first_cry db_two) = xml_response (dial_xml ''+15550002222'') \<and>
      fst (POST env_up second_cry (snd (POST env_up first_cry db_two))) = xml_response no_counselor_xml \<and>
      c_assignedCounselorId (calls (run [(env_up, first_cry), (env_up, second_cry)] db_two) ! 0) = Some 0 \<and>
      c_assignedCounselorId (calls (run [(env_up, first_cry), (env_up, second_cry)] db_two) ! 1) = None \<and>
      u_status (users (run [(env_up, first_cry), (env_up, second_cry)] db_two) ! 0) = ''busy''"
    by simp
  from e ph have e': "u_status (hd (users db_two)) = ''available'' \<and>
     (\<exists>s'. escalate (0, hd (calls db_two)) crisis_reply ?s =
            (Inr (xml_response (dial_xml ''+15550002222'')), s') \<and>
          c_assignedCounselorId (calls (store s') ! 0) = Some 0 \<and>
          u_status (users (store s') ! 0) = ''busy'')"
    by simp
  from h0 p nf ex h2 h3 e' t1 t2 av r' show ?thesis by blast
qed

end
